theory Spec2Isabelle
  imports Main "HOL-Library.Word"
begin

unbundle bit_operations_syntax

section \<open>Record and filter model\<close>

text \<open>
  The \<open>Record\<close> struct of the audit package. \<open>EventType\<close> and \<open>Result\<close> are Go string
  types; the \<open>int64\<close> fields are only copied and compared by the code modelled here, so
  they are carried as integers. \<open>Metadata\<close> (a \<open>map[string]interface{}\<close>) is kept as an
  association list from key to the textual form of the value; no operation below reads it.
\<close>

record Record =
  EventType :: string
  EventID :: string
  UserID :: string
  ChallengeID :: string
  SessionID :: string
  Channel :: string
  Destination :: string
  Purpose :: string
  Resource :: string
  Result :: string
  Reason :: string
  Provider :: string
  ProviderMessageID :: string
  IP :: string
  UserAgent :: string
  RequestID :: string
  TraceID :: string
  Timestamp :: int
  DurationMS :: int
  Metadata :: "(string \<times> string) list"

text \<open>
  \<open>NewRecord\<close>: the clock reading \<open>time.Now().Unix()\<close> is the parameter \<open>now\<close>; every other
  field has Go's zero value.
\<close>

definition NewRecord :: "int \<Rightarrow> string \<Rightarrow> string \<Rightarrow> Record" where
  "NewRecord now eventType result =
     \<lparr>EventType = eventType, EventID = [], UserID = [], ChallengeID = [], SessionID = [],
      Channel = [], Destination = [], Purpose = [], Resource = [], Result = result,
      Reason = [], Provider = [], ProviderMessageID = [], IP = [], UserAgent = [],
      RequestID = [], TraceID = [], Timestamp = now, DurationMS = 0, Metadata = []\<rparr>"

definition SetTimestamp :: "int \<Rightarrow> Record \<Rightarrow> Record" where
  "SetTimestamp ts r = r\<lparr>Timestamp := ts\<rparr>"

text \<open>
  \<open>QueryFilter\<close>. Its string fields carry the suffix \<open>_f\<close>, since a record field is a
  constant and \<open>Record\<close> already owns the bare names. \<open>Limit\<close> and \<open>Offset\<close> are Go
  \<open>int\<close>s that \<open>Normalize\<close> only compares and overwrites.
\<close>

record QueryFilter =
  EventType_f :: string
  UserID_f :: string
  ChallengeID_f :: string
  SessionID_f :: string
  Channel_f :: string
  Result_f :: string
  StartTime :: int
  EndTime :: int
  IP_f :: string
  Limit :: int
  Offset :: int

definition DefaultQueryFilter :: QueryFilter where
  "DefaultQueryFilter =
     \<lparr>EventType_f = [], UserID_f = [], ChallengeID_f = [], SessionID_f = [], Channel_f = [],
      Result_f = [], StartTime = 0, EndTime = 0, IP_f = [], Limit = 100, Offset = 0\<rparr>"

definition WithLimit :: "int \<Rightarrow> QueryFilter \<Rightarrow> QueryFilter" where
  "WithLimit limit f = f\<lparr>Limit := limit\<rparr>"

definition WithOffset :: "int \<Rightarrow> QueryFilter \<Rightarrow> QueryFilter" where
  "WithOffset offset f = f\<lparr>Offset := offset\<rparr>"

text \<open>\<open>Normalize\<close> mutates the filter through three consecutive \<open>if\<close> statements.\<close>

definition Normalize :: "QueryFilter \<Rightarrow> QueryFilter" where
  "Normalize f =
     (let f1 = (if Limit f \<le> 0 then f\<lparr>Limit := 100\<rparr> else f);
          f2 = (if Limit f1 > 1000 then f1\<lparr>Limit := 1000\<rparr> else f1);
          f3 = (if Offset f2 < 0 then f2\<lparr>Offset := 0\<rparr> else f2)
      in f3)"

text \<open>\<open>matchesFilter\<close>: a chain of early \<open>return false\<close> statements, in source order.\<close>

definition matchesFilter :: "Record \<Rightarrow> QueryFilter \<Rightarrow> bool" where
  "matchesFilter r f =
     (if EventType_f f \<noteq> [] \<and> EventType r \<noteq> EventType_f f then False
      else if UserID_f f \<noteq> [] \<and> UserID r \<noteq> UserID_f f then False
      else if ChallengeID_f f \<noteq> [] \<and> ChallengeID r \<noteq> ChallengeID_f f then False
      else if SessionID_f f \<noteq> [] \<and> SessionID r \<noteq> SessionID_f f then False
      else if Channel_f f \<noteq> [] \<and> Channel r \<noteq> Channel_f f then False
      else if Result_f f \<noteq> [] \<and> Result r \<noteq> Result_f f then False
      else if IP_f f \<noteq> [] \<and> IP r \<noteq> IP_f f then False
      else if StartTime f > 0 \<and> Timestamp r < StartTime f then False
      else if EndTime f > 0 \<and> Timestamp r > EndTime f then False
      else True)"

section \<open>The storage contract\<close>

text \<open>
  A Go \<open>error\<close> value is its message; \<open>nil\<close> is \<open>None\<close>. A panic of the Go runtime is a
  separate outcome of a call, never an error value.
\<close>

datatype error = Err string

datatype 'a outcome = Returned 'a | Panicked string

definition returned :: "'a outcome \<Rightarrow> 'a option" where
  "returned x = (case x of Returned v \<Rightarrow> Some v | Panicked msg \<Rightarrow> None)"

text \<open>
  A value of the interface \<open>Storage\<close>: some implementation state together with its three
  methods. A method receives the state and returns the new one. The \<open>context.Context\<close>
  argument is reduced to the one thing the code asks of it, whether it is already done.
  The filter handed to \<open>Query\<close> is passed by value: a backend's in-place normalisation
  of the caller's filter is not tracked.
\<close>

record 's Storage =
  impl :: 's
  WriteM :: "'s \<Rightarrow> bool \<Rightarrow> Record \<Rightarrow> error option \<times> 's"
  QueryM :: "'s \<Rightarrow> bool \<Rightarrow> QueryFilter \<Rightarrow> (error + Record list) \<times> 's"
  CloseM :: "'s \<Rightarrow> error option \<times> 's"

definition Storage_Write :: "'s Storage \<Rightarrow> bool \<Rightarrow> Record \<Rightarrow> error option \<times> 's Storage" where
  "Storage_Write s ctxDone r = (case WriteM s (impl s) ctxDone r of (e, st) \<Rightarrow> (e, s\<lparr>impl := st\<rparr>))"

definition Storage_Query ::
  "'s Storage \<Rightarrow> bool \<Rightarrow> QueryFilter \<Rightarrow> (error + Record list) \<times> 's Storage" where
  "Storage_Query s ctxDone f = (case QueryM s (impl s) ctxDone f of (res, st) \<Rightarrow> (res, s\<lparr>impl := st\<rparr>))"

definition Storage_Close :: "'s Storage \<Rightarrow> error option \<times> 's Storage" where
  "Storage_Close s = (case CloseM s (impl s) of (e, st) \<Rightarrow> (e, s\<lparr>impl := st\<rparr>))"

subsection \<open>Test doubles\<close>

text \<open>
  \<open>mockStorage\<close> of the writer tests (without its delays): \<open>Write\<close> fails with
  \<open>write error\<close> when \<open>shouldError\<close> is set and appends the record otherwise, \<open>Query\<close>
  returns all records, \<open>Close\<close> returns \<open>nil\<close>. The field \<open>closeCalls\<close> is added here so
  that a call of \<open>Close\<close> leaves a mark. \<open>errorStorage\<close> of the storage tests fails every
  call.
\<close>

record mock =
  records :: "Record list"
  shouldError :: bool
  closeCalls :: nat

definition mockStorage :: "bool \<Rightarrow> mock Storage" where
  "mockStorage fails =
     \<lparr>impl = \<lparr>records = [], shouldError = fails, closeCalls = 0\<rparr>,
      WriteM = (\<lambda>m ctxDone r.
         if shouldError m then (Some (Err ''write error''), m)
         else (None, m\<lparr>records := records m @ [r]\<rparr>)),
      QueryM = (\<lambda>m ctxDone f. (Inr (records m), m)),
      CloseM = (\<lambda>m. (None, m\<lparr>closeCalls := Suc (closeCalls m)\<rparr>))\<rparr>"

definition errorStorage :: "mock Storage" where
  "errorStorage =
     \<lparr>impl = \<lparr>records = [], shouldError = True, closeCalls = 0\<rparr>,
      WriteM = (\<lambda>m ctxDone r. (Some (Err ''write error''), m)),
      QueryM = (\<lambda>m ctxDone f. (Inl (Err ''query error''), m)),
      CloseM = (\<lambda>m. (Some (Err ''close error''), m\<lparr>closeCalls := Suc (closeCalls m)\<rparr>))\<rparr>"

section \<open>Fan-out storage\<close>

text \<open>
  \<open>MultiStorage\<close> holds a slice of interface values, any of which may be \<open>nil\<close>
  (\<open>None\<close>). Each entry is a backend of its own: the same backend listed twice is
  outside this model.
\<close>

record 's MultiStorage =
  storages :: "'s Storage option list"

definition NewMultiStorage :: "'s Storage option list \<Rightarrow> 's MultiStorage" where
  "NewMultiStorage ss = \<lparr>storages = ss\<rparr>"

text \<open>
  The loop of \<open>MultiStorage.Write\<close>, with the local \<open>firstErr\<close> as accumulator: a
  \<open>nil\<close> entry is skipped, every other entry is written to, and an error is kept only
  while \<open>firstErr\<close> is still \<open>nil\<close>.
\<close>

fun MultiStorage_Write_loop ::
  "'s Storage option list \<Rightarrow> bool \<Rightarrow> Record \<Rightarrow> error option \<Rightarrow> error option \<times> 's Storage option list" where
  "MultiStorage_Write_loop [] ctxDone r firstErr = (firstErr, [])"
| "MultiStorage_Write_loop (None # ss) ctxDone r firstErr =
     (case MultiStorage_Write_loop ss ctxDone r firstErr of (e, ss') \<Rightarrow> (e, None # ss'))"
| "MultiStorage_Write_loop (Some s # ss) ctxDone r firstErr =
     (case Storage_Write s ctxDone r of (err, s') \<Rightarrow>
        (case MultiStorage_Write_loop ss ctxDone r
                (if err \<noteq> None \<and> firstErr = None then err else firstErr) of
           (e, ss') \<Rightarrow> (e, Some s' # ss')))"

definition MultiStorage_Write ::
  "'s MultiStorage \<Rightarrow> bool \<Rightarrow> Record \<Rightarrow> error option \<times> 's MultiStorage" where
  "MultiStorage_Write m ctxDone r =
     (case MultiStorage_Write_loop (storages m) ctxDone r None of
        (e, ss') \<Rightarrow> (e, m\<lparr>storages := ss'\<rparr>))"

text \<open>
  The loop of \<open>MultiStorage.Query\<close> returns from inside its first iteration on a non-nil
  entry; falling out of the loop gives the error \<open>no storage configured\<close>.
\<close>

fun MultiStorage_Query_loop ::
  "'s Storage option list \<Rightarrow> bool \<Rightarrow> QueryFilter \<Rightarrow> (error + Record list) \<times> 's Storage option list" where
  "MultiStorage_Query_loop [] ctxDone f = (Inl (Err ''no storage configured''), [])"
| "MultiStorage_Query_loop (None # ss) ctxDone f =
     (case MultiStorage_Query_loop ss ctxDone f of (res, ss') \<Rightarrow> (res, None # ss'))"
| "MultiStorage_Query_loop (Some s # ss) ctxDone f =
     (case Storage_Query s ctxDone f of (res, s') \<Rightarrow> (res, Some s' # ss))"

definition MultiStorage_Query ::
  "'s MultiStorage \<Rightarrow> bool \<Rightarrow> QueryFilter \<Rightarrow> (error + Record list) \<times> 's MultiStorage" where
  "MultiStorage_Query m ctxDone f =
     (case MultiStorage_Query_loop (storages m) ctxDone f of
        (res, ss') \<Rightarrow> (res, m\<lparr>storages := ss'\<rparr>))"

fun MultiStorage_Close_loop ::
  "'s Storage option list \<Rightarrow> error option \<Rightarrow> error option \<times> 's Storage option list" where
  "MultiStorage_Close_loop [] firstErr = (firstErr, [])"
| "MultiStorage_Close_loop (None # ss) firstErr =
     (case MultiStorage_Close_loop ss firstErr of (e, ss') \<Rightarrow> (e, None # ss'))"
| "MultiStorage_Close_loop (Some s # ss) firstErr =
     (case Storage_Close s of (err, s') \<Rightarrow>
        (case MultiStorage_Close_loop ss
                (if err \<noteq> None \<and> firstErr = None then err else firstErr) of
           (e, ss') \<Rightarrow> (e, Some s' # ss')))"

definition MultiStorage_Close :: "'s MultiStorage \<Rightarrow> error option \<times> 's MultiStorage" where
  "MultiStorage_Close m =
     (case MultiStorage_Close_loop (storages m) None of (e, ss') \<Rightarrow> (e, m\<lparr>storages := ss'\<rparr>))"

text \<open>
  What the fan-out is expected to do, stated without the loop: the backends that are
  present, the first error of a list of results, and the position of the first backend
  that is present.
\<close>

definition present :: "'a option list \<Rightarrow> 'a list" where
  "present ss = concat (map (\<lambda>x. case x of None \<Rightarrow> [] | Some s \<Rightarrow> [s]) ss)"

definition first_error :: "error option list \<Rightarrow> error option" where
  "first_error es = (case filter (\<lambda>e. e \<noteq> None) es of [] \<Rightarrow> None | e # _ \<Rightarrow> e)"

section \<open>The asynchronous writer\<close>

text \<open>
  The \<open>Writer\<close> struct, seen between calls. The buffered channel \<open>queue\<close> is its buffer
  (oldest first), its capacity and whether it has been closed; the context is whether
  it has been cancelled. A callback field records only whether a callback is installed;
  what the writer does towards the outside (a callback invocation, a log line) is
  appended to \<open>trace\<close>. Records are non-nil pointers.
\<close>

datatype event =
    EnqueueFailedCallback Record
  | LogQueueFull string string
  | WriteFailedCallback Record error
  | LogWriteFailed nat error
  | LogCallback Record
  | LogLine string

record WriterConfig =
  QueueSize :: int
  Workers :: int
  StopTimeout :: int

definition DefaultWriterConfig :: WriterConfig where
  "DefaultWriterConfig = \<lparr>QueueSize = 1000, Workers = 2, StopTimeout = 10 * 1000000000\<rparr>"

record 's Writer =
  storage :: "'s Storage option"
  queue :: "Record list"
  queueCap :: nat
  queueClosed :: bool
  workers :: nat
  stopTimeout :: int
  ctxCancelled :: bool
  started :: bool
  stopped :: bool
  onEnqueueFailed :: bool
  onWriteFailed :: bool
  trace :: "event list"

definition NewWriter :: "'s Storage option \<Rightarrow> WriterConfig option \<Rightarrow> 's Writer" where
  "NewWriter st config =
     (let c0 = (case config of None \<Rightarrow> DefaultWriterConfig | Some c \<Rightarrow> c);
          c1 = (if QueueSize c0 \<le> 0 then c0\<lparr>QueueSize := 1000\<rparr> else c0);
          c2 = (if Workers c1 \<le> 0 then c1\<lparr>Workers := 2\<rparr> else c1);
          c3 = (if StopTimeout c2 \<le> 0 then c2\<lparr>StopTimeout := 10 * 1000000000\<rparr> else c2)
      in \<lparr>storage = st, queue = [], queueCap = nat (QueueSize c3), queueClosed = False,
          workers = nat (Workers c3), stopTimeout = StopTimeout c3, ctxCancelled = False,
          started = False, stopped = False, onEnqueueFailed = False, onWriteFailed = False,
          trace = []\<rparr>)"

definition OnEnqueueFailed :: "'s Writer \<Rightarrow> 's Writer" where
  "OnEnqueueFailed w = w\<lparr>onEnqueueFailed := True\<rparr>"

definition OnWriteFailed :: "'s Writer \<Rightarrow> 's Writer" where
  "OnWriteFailed w = w\<lparr>onWriteFailed := True\<rparr>"

text \<open>\<open>Start\<close> launches the worker goroutines and sets \<open>started\<close>; a second call returns at once.\<close>

definition Start :: "'s Writer \<Rightarrow> 's Writer" where
  "Start w =
     (if started w then w
      else w\<lparr>started := True,
             trace := trace w @ [LogLine ''[audit] Started audit log writer workers'']\<rparr>)"

text \<open>
  \<open>Enqueue\<close> is a \<open>select\<close> with one send case and a \<open>default\<close>. Go's send statement
  panics on a closed channel, inside a \<open>select\<close> as anywhere else; on an open channel the
  send case is taken when the buffer has room, and the \<open>default\<close> branch otherwise.
\<close>

definition Enqueue :: "Record \<Rightarrow> 's Writer \<Rightarrow> (bool \<times> 's Writer) outcome" where
  "Enqueue r w =
     (if queueClosed w then Panicked ''send on closed channel''
      else if length (queue w) < queueCap w then Returned (True, w\<lparr>queue := queue w @ [r]\<rparr>)
      else Returned (False,
             w\<lparr>trace := trace w @
                  [if onEnqueueFailed w then EnqueueFailedCallback r
                   else LogQueueFull (EventType r) (UserID r)]\<rparr>))"

text \<open>
  \<open>writeRecord\<close>, run by worker \<open>workerID\<close>. The call \<open>w.storage.Write\<close> on a \<open>nil\<close>
  interface value is a nil dereference, a panic.
\<close>

definition writeRecord :: "nat \<Rightarrow> Record \<Rightarrow> 's Writer \<Rightarrow> 's Writer outcome" where
  "writeRecord workerID r w =
     (case storage w of
        None \<Rightarrow> Panicked ''invalid memory address or nil pointer dereference''
      | Some s \<Rightarrow>
          (case Storage_Write s (ctxCancelled w) r of
             (None, s') \<Rightarrow> Returned (w\<lparr>storage := Some s'\<rparr>)
           | (Some err, s') \<Rightarrow>
               Returned (w\<lparr>storage := Some s',
                          trace := trace w @
                            [if onWriteFailed w then WriteFailedCallback r err
                             else LogWriteFailed workerID err]\<rparr>)))"

text \<open>
  One iteration of a worker's loop that receives a record: the oldest queued record is
  taken and written. Both the outer \<open>select\<close> and the drain loop after cancellation do
  this; on an empty queue the worker blocks or returns, which leaves the writer as it is.
  The goroutines are interleaved by a schedule: the list of the worker ids that receive,
  in the order in which they do. \<open>run_workers\<close> runs a schedule until the queue is empty.
\<close>

definition worker_receive :: "nat \<Rightarrow> 's Writer \<Rightarrow> 's Writer outcome" where
  "worker_receive workerID w =
     (case queue w of
        [] \<Rightarrow> Returned w
      | r # rest \<Rightarrow> writeRecord workerID r (w\<lparr>queue := rest\<rparr>))"

fun run_workers :: "nat list \<Rightarrow> 's Writer \<Rightarrow> 's Writer outcome" where
  "run_workers [] w = Returned w"
| "run_workers (i # sched) w =
     (case worker_receive i w of
        Panicked msg \<Rightarrow> Panicked msg
      | Returned w' \<Rightarrow> run_workers sched w')"

text \<open>
  \<open>Stop\<close>. After the early return it sets \<open>stopped\<close>, cancels the context, closes the
  queue and waits for the workers, at most \<open>stopTimeout\<close>. The parameter \<open>sched\<close> is the
  schedule of the receives that complete during that wait: a schedule as long as the
  queue is the branch \<open>case <-done\<close>, a shorter one the timeout branch, which leaves the
  remaining records in the closed queue. Then the backend, if any, is closed and the
  result of its \<open>Close\<close> is the result of \<open>Stop\<close>.
\<close>

definition Stop :: "nat list \<Rightarrow> 's Writer \<Rightarrow> (error option \<times> 's Writer) outcome" where
  "Stop sched w =
     (if \<not> started w \<or> stopped w then Returned (None, w)
      else
        let w1 = w\<lparr>stopped := True\<rparr>;
            w2 = w1\<lparr>trace := trace w1 @ [LogLine ''[audit] Stopping audit log writer...'']\<rparr>;
            w3 = w2\<lparr>ctxCancelled := True\<rparr>;
            w4 = w3\<lparr>queueClosed := True\<rparr>
        in (case run_workers sched w4 of
              Panicked msg \<Rightarrow> Panicked msg
            | Returned w5 \<Rightarrow>
                let w6 = w5\<lparr>trace := trace w5 @
                           [if queue w5 = []
                            then LogLine ''[audit] All audit log writer workers stopped''
                            else LogLine ''[audit] Timeout waiting for audit log writer workers to stop'']\<rparr>
                in (case storage w6 of
                      None \<Rightarrow> Returned (None, w6)
                    | Some s \<Rightarrow>
                        (case Storage_Close s of
                           (e, s') \<Rightarrow> Returned (e, w6\<lparr>storage := Some s'\<rparr>)))))"

text \<open>
  The writer at the moment \<open>Stop\<close> starts to wait for the workers: marked stopped, the
  context cancelled, the queue closed.
\<close>

definition begin_stop :: "'s Writer \<Rightarrow> 's Writer" where
  "begin_stop w =
     w\<lparr>stopped := True,
       trace := trace w @ [LogLine ''[audit] Stopping audit log writer...''],
       ctxCancelled := True, queueClosed := True\<rparr>"

record Stats =
  QueueLength :: nat
  QueueCap :: nat
  Workers_s :: nat
  Started :: bool
  Stopped :: bool

definition GetStats :: "'s Writer \<Rightarrow> Stats" where
  "GetStats w =
     \<lparr>QueueLength = (if \<not> stopped w then length (queue w) else 0),
      QueueCap = queueCap w, Workers_s = workers w, Started = started w, Stopped = stopped w\<rparr>"

section \<open>The logger\<close>

text \<open>
  \<open>MaskDestination\<close> delegates to the secure-kit package, which is not part of this
  repository: its two masking functions are parameters.
\<close>

definition MaskDestination ::
  "(string \<Rightarrow> string) \<Rightarrow> (string \<Rightarrow> string) \<Rightarrow> string \<Rightarrow> string \<Rightarrow> string" where
  "MaskDestination maskPhone maskEmail dest channel =
     (if dest = [] then []
      else if channel = ''sms'' \<or> channel = ''phone'' then maskPhone dest
      else if channel = ''email'' then maskEmail dest
      else ''****'')"

record Config =
  Enabled :: bool
  MaskDestination_c :: bool
  TTL :: int
  Writer_c :: "WriterConfig option"

definition DefaultConfig :: Config where
  "DefaultConfig =
     \<lparr>Enabled = True, MaskDestination_c = True, TTL = 7 * 24 * 3600 * 1000000000,
      Writer_c = Some DefaultWriterConfig\<rparr>"

text \<open>
  The \<open>Logger\<close> struct. \<open>logCallback\<close> says whether a callback is set; its invocations
  are appended to \<open>trace_L\<close>, as is the log line of a failed synchronous write. When a
  writer is present \<open>Log\<close> never reads \<open>storage_L\<close>, so the backend the writer shares with
  the logger lives in the writer.
\<close>

record 's Logger =
  config :: Config
  storage_L :: "'s Storage option"
  writer :: "'s Writer option"
  logCallback :: bool
  trace_L :: "event list"

definition NewLogger :: "'s Storage option \<Rightarrow> Config option \<Rightarrow> 's Logger" where
  "NewLogger st cfg =
     \<lparr>config = (case cfg of None \<Rightarrow> DefaultConfig | Some c \<Rightarrow> c),
      storage_L = st, writer = None, logCallback = False, trace_L = []\<rparr>"

definition NewLoggerWithWriter :: "'s Storage option \<Rightarrow> Config option \<Rightarrow> 's Logger" where
  "NewLoggerWithWriter st cfg =
     (let c = (case cfg of None \<Rightarrow> DefaultConfig | Some c \<Rightarrow> c)
      in \<lparr>config = c, storage_L = st, writer = Some (Start (NewWriter st (Writer_c c))),
          logCallback = False, trace_L = []\<rparr>)"

definition SetLogCallback :: "'s Logger \<Rightarrow> 's Logger" where
  "SetLogCallback l = l\<lparr>logCallback := True\<rparr>"

text \<open>
  \<open>Logger.Log\<close>. \<open>now\<close> is the reading of the clock. The record is passed by pointer and
  mutated, so the record as the caller sees it afterwards is part of the result.
\<close>

definition Log ::
  "int \<Rightarrow> (string \<Rightarrow> string) \<Rightarrow> (string \<Rightarrow> string) \<Rightarrow> bool \<Rightarrow> Record \<Rightarrow> 's Logger
     \<Rightarrow> (Record \<times> 's Logger) outcome" where
  "Log now maskPhone maskEmail ctxDone r l =
     (if \<not> Enabled (config l) then Returned (r, l)
      else
        let r1 = (if Timestamp r = 0 then r\<lparr>Timestamp := now\<rparr> else r);
            r2 = (if MaskDestination_c (config l) \<and> Destination r1 \<noteq> []
                  then r1\<lparr>Destination := MaskDestination maskPhone maskEmail (Destination r1) (Channel r1)\<rparr>
                  else r1);
            written =
              (case writer l of
                 Some w \<Rightarrow>
                   (case Enqueue r2 w of
                      Panicked msg \<Rightarrow> Panicked msg
                    | Returned (ok, w') \<Rightarrow> Returned (l\<lparr>writer := Some w'\<rparr>))
               | None \<Rightarrow>
                   (case storage_L l of
                      Some s \<Rightarrow>
                        (case Storage_Write s ctxDone r2 of
                           (None, s') \<Rightarrow> Returned (l\<lparr>storage_L := Some s'\<rparr>)
                         | (Some err, s') \<Rightarrow>
                             Returned (l\<lparr>storage_L := Some s',
                                        trace_L := trace_L l @
                                          [LogLine ''[audit] Failed to write audit record'']\<rparr>))
                    | None \<Rightarrow> Returned l))
        in (case written of
              Panicked msg \<Rightarrow> Panicked msg
            | Returned l1 \<Rightarrow>
                Returned (r2, if logCallback l1
                              then l1\<lparr>trace_L := trace_L l1 @ [LogCallback r2]\<rparr> else l1)))"

section \<open>The file backend\<close>

subsection \<open>The JSON codec\<close>

text \<open>
  \<open>encoding/json\<close> is not part of the repository. Wherever a backend marshals or
  unmarshals a record, the codec is a pair of parameters: \<open>encode\<close> for
  \<open>json.Marshal\<close> (\<open>None\<close> is a marshalling error) and \<open>decode\<close> for \<open>json.Unmarshal\<close>
  into a \<open>Record\<close> (\<open>None\<close> is a decoding error). The examples below use a stand-in
  that knows three records, with the timestamps 1, 2 and 3 and no other field set.
\<close>

definition demo_encode :: "Record \<Rightarrow> string option" where
  "demo_encode r =
     (if r = NewRecord 1 [] [] then Some ''one''
      else if r = NewRecord 2 [] [] then Some ''two''
      else if r = NewRecord 3 [] [] then Some ''three''
      else None)"

definition demo_decode :: "string \<Rightarrow> Record option" where
  "demo_decode l =
     (if l = ''one'' then Some (NewRecord 1 [] [])
      else if l = ''two'' then Some (NewRecord 2 [] [])
      else if l = ''three'' then Some (NewRecord 3 [] [])
      else None)"

subsection \<open>The file system\<close>

text \<open>
  What the \<open>os\<close> package does for the file backend, reduced to a map from paths (lists
  of components, the empty list being the root directory) to directories, regular files
  and symbolic links. Modes are \<open>os.FileMode\<close> permission bits (\<open>uint32\<close>); a created
  node gets the requested mode with the bits of the process \<open>umask\<close> cleared. Access
  checks are not modelled, and a symbolic link is followed only as the last component of
  a path.
\<close>

type_synonym path = "string list"

datatype node = Dir "32 word" | File "32 word" string | Symlink path

type_synonym filesystem = "path \<Rightarrow> node option"

definition fs_lookup :: "filesystem \<Rightarrow> path \<Rightarrow> node option" where
  "fs_lookup fs p = (if p = [] then Some (Dir 493) else fs p)"

fun resolve :: "nat \<Rightarrow> filesystem \<Rightarrow> path \<Rightarrow> path option" where
  "resolve 0 fs p = None"
| "resolve (Suc n) fs p =
     (case fs_lookup fs p of Some (Symlink t) \<Rightarrow> resolve n fs t | _ \<Rightarrow> Some p)"

text \<open>\<open>os.Stat\<close> follows symbolic links, at most 40 of them; \<open>os.Lstat\<close> is \<open>fs_lookup\<close>.\<close>

definition stat :: "filesystem \<Rightarrow> path \<Rightarrow> node option" where
  "stat fs p = (case resolve 40 fs p of None \<Rightarrow> None | Some q \<Rightarrow> fs_lookup fs q)"

text \<open>
  \<open>os.MkdirAll\<close>: every prefix of the path, shortest first, must be a directory or is
  created as one.
\<close>

fun MkdirAll_loop :: "32 word \<Rightarrow> 32 word \<Rightarrow> path list \<Rightarrow> filesystem \<Rightarrow> error + filesystem" where
  "MkdirAll_loop umask perm [] fs = Inr fs"
| "MkdirAll_loop umask perm (p # ps) fs =
     (case fs_lookup fs p of
        None \<Rightarrow> MkdirAll_loop umask perm ps (fs(p \<mapsto> Dir (perm AND NOT umask)))
      | Some n \<Rightarrow>
          (case stat fs p of
             Some (Dir m) \<Rightarrow> MkdirAll_loop umask perm ps fs
           | _ \<Rightarrow> Inl (Err ''mkdir: not a directory'')))"

definition MkdirAll :: "32 word \<Rightarrow> filesystem \<Rightarrow> path \<Rightarrow> 32 word \<Rightarrow> error + filesystem" where
  "MkdirAll umask fs dir perm =
     MkdirAll_loop umask perm (map (\<lambda>n. take n dir) [1..<Suc (length dir)]) fs"

text \<open>
  \<open>os.OpenFile\<close> with the flags \<open>O_APPEND|O_CREATE|O_WRONLY\<close>, the only ones the backend
  uses. There is no \<open>O_NOFOLLOW\<close>: a symbolic link is followed. The result is the path
  of the file the descriptor is open on.
\<close>

definition OpenFile :: "32 word \<Rightarrow> filesystem \<Rightarrow> path \<Rightarrow> 32 word \<Rightarrow> error + (path \<times> filesystem)" where
  "OpenFile umask fs p perm =
     (case resolve 40 fs p of
        None \<Rightarrow> Inl (Err ''open: too many levels of symbolic links'')
      | Some q \<Rightarrow>
          (case fs_lookup fs q of
             Some (File m c) \<Rightarrow> Inr (q, fs)
           | Some other \<Rightarrow> Inl (Err ''open: is a directory'')
           | None \<Rightarrow>
               (case stat fs (butlast q) of
                  Some (Dir m) \<Rightarrow> Inr (q, fs(q \<mapsto> File (perm AND NOT umask) []))
                | _ \<Rightarrow> Inl (Err ''open: no such file or directory''))))"

subsection \<open>FileStorage\<close>

text \<open>
  The \<open>FileStorage\<close> struct: the configured path and the open file \<open>file_fd\<close>, named by the path
  the descriptor was opened on. \<open>Write\<close> flushes before it returns, so the
  \<open>bufio.Writer\<close> is empty between calls and has no field here.
\<close>

record FileStorage =
  filePath :: path
  file_fd :: path
  fileClosed :: bool

text \<open>
  \<open>NewFileStorage\<close>: \<open>filepath.Dir\<close> drops the last component; the directory is
  created with mode \<open>0755\<close> (493) and the file opened with mode \<open>0644\<close> (420).
\<close>

definition NewFileStorage :: "32 word \<Rightarrow> filesystem \<Rightarrow> path \<Rightarrow> error + (FileStorage \<times> filesystem)" where
  "NewFileStorage umask fs p =
     (case MkdirAll umask fs (butlast p) 493 of
        Inl (Err msg) \<Rightarrow> Inl (Err (''failed to create directory: '' @ msg))
      | Inr fs1 \<Rightarrow>
          (case OpenFile umask fs1 p 420 of
             Inl (Err msg) \<Rightarrow> Inl (Err (''failed to open file: '' @ msg))
           | Inr (q, fs2) \<Rightarrow> Inr (\<lparr>filePath = p, file_fd = q, fileClosed = False\<rparr>, fs2)))"

abbreviation newline :: char where
  "newline \<equiv> CHR 0x0A"

text \<open>
  \<open>FileStorage.Write\<close>: the context check, the marshalling, then the line and its
  newline are appended to the open file. The three I/O calls fail together, when the
  descriptor has been closed. A file unlinked while open takes the bytes out of sight.
\<close>

definition FileStorage_Write ::
  "(Record \<Rightarrow> string option) \<Rightarrow> FileStorage \<Rightarrow> filesystem \<Rightarrow> bool \<Rightarrow> Record
     \<Rightarrow> error option \<times> filesystem" where
  "FileStorage_Write encode s fs ctxDone r =
     (if ctxDone then (Some (Err ''context canceled''), fs)
      else case encode r of
        None \<Rightarrow> (Some (Err ''failed to marshal audit record''), fs)
      | Some data \<Rightarrow>
          if fileClosed s then (Some (Err ''failed to flush buffer: file already closed''), fs)
          else (case fs_lookup fs (file_fd s) of
                  Some (File m c) \<Rightarrow> (None, fs(file_fd s \<mapsto> File m (c @ data @ [newline])))
                | _ \<Rightarrow> (None, fs)))"

text \<open>
  \<open>bufio.Scanner\<close> with \<open>ScanLines\<close>. \<open>split_lines\<close> cuts the bytes at each newline; a
  last line without newline counts when it is not empty. \<open>dropCR\<close> removes one trailing
  carriage return from a token.
\<close>

fun split_lines :: "string \<Rightarrow> string \<Rightarrow> string list" where
  "split_lines [] cur = (if cur = [] then [] else [cur])"
| "split_lines (c # cs) cur =
     (if c = newline then cur # split_lines cs [] else split_lines cs (cur @ [c]))"

definition dropCR :: "string \<Rightarrow> string" where
  "dropCR data = (if data \<noteq> [] \<and> last data = CHR 0x0D then butlast data else data)"

text \<open>
  The scanner is given a buffer of capacity 64 that may grow to \<open>MaxRecordJSONSize\<close>, so
  its buffer never exceeds \<open>max 64 MaxRecordJSONSize\<close> bytes. A line that does not fit
  with its terminator (that is, a line of at least that many bytes) ends the scan with
  \<open>ErrTooLong\<close>. The constant \<open>MaxRecordJSONSize\<close> is declared in a file that is not
  among the sources; it is the parameter \<open>maxSize\<close>.

  \<open>scan_loop\<close> is the loop \<open>for scanner.Scan()\<close> of \<open>Query\<close> followed by the check of
  \<open>scanner.Err()\<close>: per token the context check, the skip of an empty line, the skip of
  a line longer than \<open>MaxRecordJSONSize\<close>, the skip of a line that does not decode, and
  the append to \<open>allRecords\<close>.
\<close>

fun scan_loop ::
  "nat \<Rightarrow> (string \<Rightarrow> Record option) \<Rightarrow> bool \<Rightarrow> string list \<Rightarrow> Record list \<Rightarrow> error + Record list" where
  "scan_loop maxSize decode ctxDone [] allRecords = Inr allRecords"
| "scan_loop maxSize decode ctxDone (l # ls) allRecords =
     (if max 64 maxSize \<le> length l
      then Inl (Err ''failed to read file: bufio.Scanner: token too long'')
      else if ctxDone then Inl (Err ''context canceled'')
      else if length (dropCR l) = 0 then scan_loop maxSize decode ctxDone ls allRecords
      else if length (dropCR l) > maxSize then scan_loop maxSize decode ctxDone ls allRecords
      else (case decode (dropCR l) of
              None \<Rightarrow> scan_loop maxSize decode ctxDone ls allRecords
            | Some record \<Rightarrow> scan_loop maxSize decode ctxDone ls (allRecords @ [record])))"

text \<open>
  The second loop of \<open>Query\<close>, over \<open>allRecords\<close> from the last index down: the list
  argument is \<open>allRecords\<close> reversed, \<open>offset\<close> and \<open>results\<close> are the loop's locals.
\<close>

fun paginate_loop :: "Record list \<Rightarrow> QueryFilter \<Rightarrow> int \<Rightarrow> Record list \<Rightarrow> Record list" where
  "paginate_loop [] f offset results = results"
| "paginate_loop (r # rs) f offset results =
     (if \<not> matchesFilter r f then paginate_loop rs f offset results
      else if offset < Offset f then paginate_loop rs f (offset + 1) results
      else if int (length (results @ [r])) \<ge> Limit f then results @ [r]
      else paginate_loop rs f offset (results @ [r]))"

text \<open>
  \<open>FileStorage.Query\<close>. A \<open>nil\<close> filter is \<open>None\<close>. \<open>os.Open\<close> follows a symbolic link;
  a missing file gives the empty result, and a directory opens but cannot be read.
\<close>

definition FileStorage_Query ::
  "nat \<Rightarrow> (string \<Rightarrow> Record option) \<Rightarrow> FileStorage \<Rightarrow> filesystem \<Rightarrow> bool \<Rightarrow> QueryFilter option
     \<Rightarrow> error + Record list" where
  "FileStorage_Query maxSize decode s fs ctxDone flt =
     (let f = Normalize (case flt of None \<Rightarrow> DefaultQueryFilter | Some f \<Rightarrow> f)
      in case resolve 40 fs (filePath s) of
           None \<Rightarrow> Inl (Err ''failed to open file for reading: too many levels of symbolic links'')
         | Some q \<Rightarrow>
             (case fs_lookup fs q of
                None \<Rightarrow> Inr []
              | Some (File m c) \<Rightarrow>
                  (case scan_loop maxSize decode ctxDone (split_lines c []) [] of
                     Inl e \<Rightarrow> Inl e
                   | Inr allRecords \<Rightarrow> Inr (paginate_loop (rev allRecords) f 0 []))
              | Some other \<Rightarrow> Inl (Err ''failed to read file: is a directory'')))"

text \<open>
  For the statements about \<open>Query\<close>: the filter a query works with, what one line of
  the file contributes to \<open>allRecords\<close>, and a storage opened on a file \<open>audit.log\<close>
  of given content.
\<close>

definition effective_filter :: "QueryFilter option \<Rightarrow> QueryFilter" where
  "effective_filter flt = Normalize (case flt of None \<Rightarrow> DefaultQueryFilter | Some f \<Rightarrow> f)"

definition line_record :: "nat \<Rightarrow> (string \<Rightarrow> Record option) \<Rightarrow> string \<Rightarrow> Record option" where
  "line_record maxSize decode l =
     (if dropCR l = [] \<or> maxSize < length (dropCR l) then None else decode (dropCR l))"

definition file_with :: "string \<Rightarrow> FileStorage \<times> filesystem" where
  "file_with content =
     (\<lparr>filePath = [''audit.log''], file_fd = [''audit.log''], fileClosed = False\<rparr>,
      [[''audit.log''] \<mapsto> File 420 content])"

text \<open>
  A record on which the codec is usable for the file backend: it encodes to a non-empty
  line without newline or trailing carriage return, shorter than \<open>maxSize\<close>, that decodes
  to the record again. \<open>json.Marshal\<close> escapes control characters, so only the size is a
  restriction on real records.
\<close>

definition codec_ok ::
  "nat \<Rightarrow> (Record \<Rightarrow> string option) \<Rightarrow> (string \<Rightarrow> Record option) \<Rightarrow> Record \<Rightarrow> bool" where
  "codec_ok maxSize encode decode r =
     (case encode r of
        None \<Rightarrow> False
      | Some l \<Rightarrow> l \<noteq> [] \<and> newline \<notin> set l \<and> last l \<noteq> CHR 0x0D \<and> length l < maxSize
                  \<and> decode l = Some r)"

definition FileStorage_Close :: "FileStorage \<Rightarrow> error option \<times> FileStorage" where
  "FileStorage_Close s =
     (if fileClosed s then (Some (Err ''close: file already closed''), s)
      else (None, s\<lparr>fileClosed := True\<rparr>))"

text \<open>Writing a list of records one after the other; the errors are collected.\<close>

fun FileStorage_Write_all ::
  "(Record \<Rightarrow> string option) \<Rightarrow> FileStorage \<Rightarrow> filesystem \<Rightarrow> Record list
     \<Rightarrow> error option list \<times> filesystem" where
  "FileStorage_Write_all encode s fs [] = ([], fs)"
| "FileStorage_Write_all encode s fs (r # rs) =
     (case FileStorage_Write encode s fs False r of
        (e, fs1) \<Rightarrow>
          (case FileStorage_Write_all encode s fs1 rs of (es, fs2) \<Rightarrow> (e # es, fs2)))"

section \<open>The Redis backend\<close>

subsection \<open>Decimal formatting\<close>

text \<open>\<open>fmt.Sprintf("%d", n)\<close> for an \<open>int64\<close>: the decimal digits, after a minus sign if negative.\<close>

definition digit_char :: "nat \<Rightarrow> char" where
  "digit_char n = ''0123456789'' ! n"

fun digits :: "nat \<Rightarrow> string" where
  "digits n = (if n < 10 then [digit_char n] else digits (n div 10) @ [digit_char (n mod 10)])"

declare digits.simps [simp del]

definition show_int :: "int \<Rightarrow> string" where
  "show_int i = (if i < 0 then CHR ''-'' # digits (nat (- i)) else digits (nat i))"

subsection \<open>The Redis server\<close>

text \<open>
  What the go-redis client is used for, as a key space of strings (with the expiry they
  were set with) and sorted sets (members with their scores, each member once). No time
  passes in the model, so nothing expires by itself. \<open>down\<close> makes every command fail,
  as a lost connection does. A score is the \<open>float64\<close> of a timestamp; it is kept as the
  integer, which is exact up to \<open>2^53\<close>. Among equal scores the server orders members
  lexicographically, the model by position in the set; this shows only in which members
  of equal score a \<open>COUNT\<close> cuts off.
\<close>

datatype redis_value = Str string int | ZSet "(string \<times> int) list"

record Redis =
  kv :: "string \<Rightarrow> redis_value option"
  down :: bool

definition empty_redis :: Redis where
  "empty_redis = \<lparr>kv = Map.empty, down = False\<rparr>"

fun zadd :: "(string \<times> int) list \<Rightarrow> string \<Rightarrow> int \<Rightarrow> (string \<times> int) list" where
  "zadd [] m sc = [(m, sc)]"
| "zadd ((m', sc') # z) m sc = (if m' = m then (m, sc) # z else (m', sc') # zadd z m sc)"

definition zrem :: "(string \<times> int) list \<Rightarrow> string \<Rightarrow> (string \<times> int) list" where
  "zrem z m = filter (\<lambda>e. fst e \<noteq> m) z"

text \<open>
  \<open>ZREVRANGEBYSCORE key max min LIMIT 0 count\<close>: the members with a score within the
  bounds (\<open>None\<close> is \<open>-inf\<close> or \<open>+inf\<close>), highest score first, at most \<open>count\<close> of them;
  a count that is not positive does not limit.
\<close>

definition in_range :: "int option \<Rightarrow> int option \<Rightarrow> int \<Rightarrow> bool" where
  "in_range lo hi sc =
     ((case lo of None \<Rightarrow> True | Some a \<Rightarrow> a \<le> sc) \<and> (case hi of None \<Rightarrow> True | Some b \<Rightarrow> sc \<le> b))"

definition zrevrangebyscore ::
  "(string \<times> int) list \<Rightarrow> int option \<Rightarrow> int option \<Rightarrow> int \<Rightarrow> string list" where
  "zrevrangebyscore z lo hi count =
     (let hits = sort_key (\<lambda>e. - snd e) (filter (\<lambda>e. in_range lo hi (snd e)) z)
      in map fst (if count \<le> 0 then hits else take (nat count) hits))"

text \<open>Go's \<open>int\<close> addition wraps around at 64 bits.\<close>

definition wrap64 :: "int \<Rightarrow> int" where
  "wrap64 x = (x + 2 ^ 63) mod 2 ^ 64 - 2 ^ 63"

subsection \<open>RedisStorage\<close>

record RedisStorage =
  keyPrefix :: string
  ttl :: int

record RedisConfig =
  KeyPrefix :: string
  TTL_r :: int

definition DefaultRedisConfig :: RedisConfig where
  "DefaultRedisConfig = \<lparr>KeyPrefix = ''audit:'', TTL_r = 7 * 24 * 3600 * 1000000000\<rparr>"

definition NewRedisStorageWithConfig :: "RedisConfig option \<Rightarrow> RedisStorage" where
  "NewRedisStorageWithConfig cfg =
     (let c0 = (case cfg of None \<Rightarrow> DefaultRedisConfig | Some c \<Rightarrow> c);
          c1 = (if KeyPrefix c0 = [] then c0\<lparr>KeyPrefix := ''audit:''\<rparr> else c0);
          c2 = (if TTL_r c1 \<le> 0 then c1\<lparr>TTL_r := 7 * 24 * 3600 * 1000000000\<rparr> else c1)
      in \<lparr>keyPrefix = KeyPrefix c2, ttl = TTL_r c2\<rparr>)"

definition NewRedisStorage :: RedisStorage where
  "NewRedisStorage = NewRedisStorageWithConfig None"

text \<open>The key of a record: the \<open>if\<close> chain at the head of \<open>RedisStorage.Write\<close>.\<close>

definition RedisStorage_key :: "RedisStorage \<Rightarrow> Record \<Rightarrow> string" where
  "RedisStorage_key s r =
     (if EventID r \<noteq> [] then keyPrefix s @ show_int (Timestamp r) @ '':'' @ EventID r
      else if ChallengeID r \<noteq> [] then keyPrefix s @ show_int (Timestamp r) @ '':'' @ ChallengeID r
      else if UserID r \<noteq> [] then keyPrefix s @ show_int (Timestamp r) @ '':'' @ UserID r
      else keyPrefix s @ show_int (Timestamp r))"

text \<open>
  The key is the prefix, the timestamp in decimal and a suffix that is empty or starts
  with a colon.
\<close>

definition key_suffix :: "Record \<Rightarrow> string" where
  "key_suffix r =
     (if EventID r \<noteq> [] then '':'' @ EventID r
      else if ChallengeID r \<noteq> [] then '':'' @ ChallengeID r
      else if UserID r \<noteq> [] then '':'' @ UserID r
      else [])"

definition setKey :: "RedisStorage \<Rightarrow> string" where
  "setKey s = keyPrefix s @ ''index''"

text \<open>
  \<open>RedisStorage.Write\<close>: \<open>SET key data EX ttl\<close>, which replaces whatever the key held,
  then \<open>ZADD index score key\<close>, which fails on a key that holds a string.
\<close>

definition RedisStorage_Write ::
  "(Record \<Rightarrow> string option) \<Rightarrow> RedisStorage \<Rightarrow> Redis \<Rightarrow> bool \<Rightarrow> Record \<Rightarrow> error option \<times> Redis" where
  "RedisStorage_Write encode s redis ctxDone r =
     (let key = RedisStorage_key s r
      in case encode r of
           None \<Rightarrow> (Some (Err ''failed to marshal record''), redis)
         | Some data \<Rightarrow>
             if ctxDone \<or> down redis then (Some (Err ''failed to set key''), redis)
             else
               let redis1 = redis\<lparr>kv := (kv redis)(key \<mapsto> Str data (ttl s))\<rparr>
               in (case kv redis1 (setKey s) of
                     None \<Rightarrow>
                       (None, redis1\<lparr>kv := (kv redis1)(setKey s \<mapsto> ZSet [(key, Timestamp r)])\<rparr>)
                   | Some (ZSet z) \<Rightarrow>
                       (None, redis1\<lparr>kv := (kv redis1)(setKey s \<mapsto> ZSet (zadd z key (Timestamp r)))\<rparr>)
                   | Some (Str v t) \<Rightarrow>
                       (Some (Err ''failed to add to sorted set''), redis1)))"

text \<open>
  The loop of \<open>Query\<close> over the keys of the index: a key that is gone is removed from
  the index, a value that cannot be read or decoded or that fails the filter is skipped.
\<close>

fun redis_get_loop ::
  "(string \<Rightarrow> Record option) \<Rightarrow> string \<Rightarrow> QueryFilter \<Rightarrow> string list \<Rightarrow> Redis \<Rightarrow> Record list
     \<Rightarrow> Record list \<times> Redis" where
  "redis_get_loop decode sk f [] redis recs = (recs, redis)"
| "redis_get_loop decode sk f (key # keys) redis recs =
     (case kv redis key of
        None \<Rightarrow>
          redis_get_loop decode sk f keys
            (case kv redis sk of
               Some (ZSet z) \<Rightarrow> redis\<lparr>kv := (kv redis)(sk \<mapsto> ZSet (zrem z key))\<rparr>
             | _ \<Rightarrow> redis)
            recs
      | Some (ZSet z) \<Rightarrow> redis_get_loop decode sk f keys redis recs
      | Some (Str data t) \<Rightarrow>
          (case decode data of
             None \<Rightarrow> redis_get_loop decode sk f keys redis recs
           | Some rcd \<Rightarrow>
               if \<not> matchesFilter rcd f then redis_get_loop decode sk f keys redis recs
               else redis_get_loop decode sk f keys redis (recs @ [rcd])))"

text \<open>
  \<open>RedisStorage.Query\<close>. \<open>sort.Slice\<close> with the comparison \<open>Timestamp[i] > Timestamp[j]\<close>
  is not stable; the model sorts stably, which fixes the order of recs of equal
  timestamp that Go leaves open.
\<close>

definition RedisStorage_Query ::
  "(string \<Rightarrow> Record option) \<Rightarrow> RedisStorage \<Rightarrow> Redis \<Rightarrow> bool \<Rightarrow> QueryFilter option
     \<Rightarrow> (error + Record list) \<times> Redis" where
  "RedisStorage_Query decode s redis ctxDone flt =
     (let f = Normalize (case flt of None \<Rightarrow> DefaultQueryFilter | Some f \<Rightarrow> f);
          lo = (if StartTime f > 0 then Some (StartTime f) else None);
          hi = (if EndTime f > 0 then Some (EndTime f) else None)
      in if ctxDone \<or> down redis then (Inl (Err ''failed to get keys''), redis)
         else
           (case kv redis (setKey s) of
              Some (Str v t) \<Rightarrow> (Inl (Err ''failed to get keys''), redis)
            | other \<Rightarrow>
                let z = (case other of Some (ZSet z) \<Rightarrow> z | _ \<Rightarrow> []);
                    keys = zrevrangebyscore z lo hi (wrap64 (Limit f + Offset f + 100))
                in if length keys = 0 then (Inr [], redis)
                   else
                     (case redis_get_loop decode (setKey s) f keys redis [] of
                        (found, redis') \<Rightarrow>
                          let recs = sort_key (\<lambda>r. - Timestamp r) found;
                              start = Offset f
                          in if start \<ge> int (length recs) then (Inr [], redis')
                             else
                               let end0 = start + Limit f;
                                   end1 = (if end0 > int (length recs) then int (length recs) else end0)
                               in (Inr (take (nat end1 - nat start) (drop (nat start) recs)), redis'))))"

text \<open>
  For the statements about the Redis backend: a server that holds exactly the records
  \<open>rs\<close>, each under its own key, and the index with one member per record, in the
  order in which the records were written.
\<close>

definition redis_holds ::
  "RedisStorage \<Rightarrow> (Record \<Rightarrow> string option) \<Rightarrow> Redis \<Rightarrow> Record list \<Rightarrow> bool" where
  "redis_holds s encode redis rs =
     (\<not> down redis
      \<and> list_all (\<lambda>r. kv redis (RedisStorage_key s r) = Some (Str (the (encode r)) (ttl s))) rs
      \<and> kv redis (setKey s)
          = (if rs = [] then None
             else Some (ZSet (map (\<lambda>r. (RedisStorage_key s r, Timestamp r)) rs))))"

fun RedisStorage_Write_all ::
  "(Record \<Rightarrow> string option) \<Rightarrow> RedisStorage \<Rightarrow> Redis \<Rightarrow> Record list \<Rightarrow> error option list \<times> Redis" where
  "RedisStorage_Write_all encode s redis [] = ([], redis)"
| "RedisStorage_Write_all encode s redis (r # rs) =
     (case RedisStorage_Write encode s redis False r of
        (e, redis1) \<Rightarrow>
          (case RedisStorage_Write_all encode s redis1 rs of (es, redis2) \<Rightarrow> (e # es, redis2)))"

section \<open>The relational backend: construction\<close>

text \<open>
  \<open>strings.Split\<close> on a one-byte separator and \<open>strings.TrimSpace\<close> on ASCII text.
\<close>

fun split_on :: "char \<Rightarrow> string \<Rightarrow> string \<Rightarrow> string list" where
  "split_on sep [] cur = [cur]"
| "split_on sep (c # cs) cur =
     (if c = sep then cur # split_on sep cs [] else split_on sep cs (cur @ [c]))"

definition Split :: "string \<Rightarrow> char \<Rightarrow> string list" where
  "Split s sep = split_on sep s []"

definition is_space :: "char \<Rightarrow> bool" where
  "is_space c = (c = CHR 0x09 \<or> c = CHR 0x0A \<or> c = CHR 0x0B \<or> c = CHR 0x0C \<or> c = CHR 0x0D \<or> c = CHR '' '')"

definition TrimSpace :: "string \<Rightarrow> string" where
  "TrimSpace s = rev (dropWhile is_space (rev (dropWhile is_space s)))"

text \<open>
  The raw string literals of \<open>createTable\<close>, one per dialect, with the table name
  spliced in at every \<open>%s\<close>. A literal starts with a newline and ends with two tabs;
  in between, each line is given by its number of leading tabs and its text.
\<close>

definition sql_text :: "(nat \<times> string) list \<Rightarrow> string" where
  "sql_text ls =
     [newline] @ concat (map (\<lambda>(n, txt). replicate n (CHR 0x09) @ txt @ [newline]) ls)
       @ [CHR 0x09, CHR 0x09]"

definition createTableSQL_postgres :: "string \<Rightarrow> string" where
  "createTableSQL_postgres t = sql_text
     [(2, ''CREATE TABLE IF NOT EXISTS '' @ t @ '' (''),
      (3, ''id BIGSERIAL PRIMARY KEY,''),
      (3, ''event_type VARCHAR(50) NOT NULL,''),
      (3, ''event_id VARCHAR(100),''),
      (3, ''user_id VARCHAR(100),''),
      (3, ''challenge_id VARCHAR(100),''),
      (3, ''session_id VARCHAR(100),''),
      (3, ''channel VARCHAR(20),''),
      (3, ''destination VARCHAR(255),''),
      (3, ''purpose VARCHAR(50),''),
      (3, ''resource VARCHAR(255),''),
      (3, ''result VARCHAR(20),''),
      (3, ''reason VARCHAR(255),''),
      (3, ''provider VARCHAR(50),''),
      (3, ''provider_message_id VARCHAR(255),''),
      (3, ''ip VARCHAR(45),''),
      (3, ''user_agent TEXT,''),
      (3, ''request_id VARCHAR(100),''),
      (3, ''trace_id VARCHAR(100),''),
      (3, ''timestamp BIGINT NOT NULL,''),
      (3, ''duration_ms BIGINT,''),
      (3, ''metadata JSONB,''),
      (3, ''created_at TIMESTAMP NOT NULL DEFAULT NOW()''),
      (2, '');''),
      (0, ''''),
      (2, ''CREATE INDEX IF NOT EXISTS idx_'' @ t @ ''_user_id ON '' @ t @ ''(user_id);''),
      (2, ''CREATE INDEX IF NOT EXISTS idx_'' @ t @ ''_challenge_id ON '' @ t @ ''(challenge_id);''),
      (2, ''CREATE INDEX IF NOT EXISTS idx_'' @ t @ ''_session_id ON '' @ t @ ''(session_id);''),
      (2, ''CREATE INDEX IF NOT EXISTS idx_'' @ t @ ''_event_type ON '' @ t @ ''(event_type);''),
      (2, ''CREATE INDEX IF NOT EXISTS idx_'' @ t @ ''_timestamp ON '' @ t @ ''(timestamp);''),
      (2, ''CREATE INDEX IF NOT EXISTS idx_'' @ t @ ''_created_at ON '' @ t @ ''(created_at);'')]"

definition createTableSQL_mysql :: "string \<Rightarrow> string" where
  "createTableSQL_mysql t = sql_text
     [(2, ''CREATE TABLE IF NOT EXISTS '' @ t @ '' (''),
      (3, ''id BIGINT AUTO_INCREMENT PRIMARY KEY,''),
      (3, ''event_type VARCHAR(50) NOT NULL,''),
      (3, ''event_id VARCHAR(100),''),
      (3, ''user_id VARCHAR(100),''),
      (3, ''challenge_id VARCHAR(100),''),
      (3, ''session_id VARCHAR(100),''),
      (3, ''channel VARCHAR(20),''),
      (3, ''destination VARCHAR(255),''),
      (3, ''purpose VARCHAR(50),''),
      (3, ''resource VARCHAR(255),''),
      (3, ''result VARCHAR(20),''),
      (3, ''reason VARCHAR(255),''),
      (3, ''provider VARCHAR(50),''),
      (3, ''provider_message_id VARCHAR(255),''),
      (3, ''ip VARCHAR(45),''),
      (3, ''user_agent TEXT,''),
      (3, ''request_id VARCHAR(100),''),
      (3, ''trace_id VARCHAR(100),''),
      (3, ''timestamp BIGINT NOT NULL,''),
      (3, ''duration_ms BIGINT,''),
      (3, ''metadata JSON,''),
      (3, ''created_at TIMESTAMP NOT NULL DEFAULT CURRENT_TIMESTAMP,''),
      (3, ''INDEX idx_'' @ t @ ''_user_id (user_id),''),
      (3, ''INDEX idx_'' @ t @ ''_challenge_id (challenge_id),''),
      (3, ''INDEX idx_'' @ t @ ''_session_id (session_id),''),
      (3, ''INDEX idx_'' @ t @ ''_event_type (event_type),''),
      (3, ''INDEX idx_'' @ t @ ''_timestamp (timestamp),''),
      (3, ''INDEX idx_'' @ t @ ''_created_at (created_at)''),
      (2, '') ENGINE=InnoDB DEFAULT CHARSET=utf8mb4;'')]"

definition createTableSQL_sqlite :: "string \<Rightarrow> string" where
  "createTableSQL_sqlite t = sql_text
     [(2, ''CREATE TABLE IF NOT EXISTS '' @ t @ '' (''),
      (3, ''id INTEGER PRIMARY KEY AUTOINCREMENT,''),
      (3, ''event_type VARCHAR(50) NOT NULL,''),
      (3, ''event_id VARCHAR(100),''),
      (3, ''user_id VARCHAR(100),''),
      (3, ''challenge_id VARCHAR(100),''),
      (3, ''session_id VARCHAR(100),''),
      (3, ''channel VARCHAR(20),''),
      (3, ''destination VARCHAR(255),''),
      (3, ''purpose VARCHAR(50),''),
      (3, ''resource VARCHAR(255),''),
      (3, ''result VARCHAR(20),''),
      (3, ''reason VARCHAR(255),''),
      (3, ''provider VARCHAR(50),''),
      (3, ''provider_message_id VARCHAR(255),''),
      (3, ''ip VARCHAR(45),''),
      (3, ''user_agent TEXT,''),
      (3, ''request_id VARCHAR(100),''),
      (3, ''trace_id VARCHAR(100),''),
      (3, ''timestamp BIGINT NOT NULL,''),
      (3, ''duration_ms BIGINT,''),
      (3, ''metadata TEXT,''),
      (3, ''created_at TIMESTAMP NOT NULL DEFAULT CURRENT_TIMESTAMP''),
      (2, '');''),
      (0, ''''),
      (2, ''CREATE INDEX IF NOT EXISTS idx_'' @ t @ ''_user_id ON '' @ t @ ''(user_id);''),
      (2, ''CREATE INDEX IF NOT EXISTS idx_'' @ t @ ''_challenge_id ON '' @ t @ ''(challenge_id);''),
      (2, ''CREATE INDEX IF NOT EXISTS idx_'' @ t @ ''_session_id ON '' @ t @ ''(session_id);''),
      (2, ''CREATE INDEX IF NOT EXISTS idx_'' @ t @ ''_event_type ON '' @ t @ ''(event_type);''),
      (2, ''CREATE INDEX IF NOT EXISTS idx_'' @ t @ ''_timestamp ON '' @ t @ ''(timestamp);''),
      (2, ''CREATE INDEX IF NOT EXISTS idx_'' @ t @ ''_created_at ON '' @ t @ ''(created_at);'')]"

text \<open>
  The connection pool \<open>*sql.DB\<close>: the statements handed to \<open>ExecContext\<close> so far, and
  which statements the engine accepts.
\<close>

record DB =
  execCalls :: "string list"
  accepts :: "string \<Rightarrow> bool"

definition ExecContext :: "DB \<Rightarrow> string \<Rightarrow> error option \<times> DB" where
  "ExecContext db stmt =
     (if accepts db stmt then None else Some (Err ''sql: statement rejected''),
      db\<lparr>execCalls := execCalls db @ [stmt]\<rparr>)"

record DatabaseStorage =
  dbType :: string
  tableName :: string

record DatabaseConfig =
  TableName :: string

definition DefaultDatabaseConfig :: DatabaseConfig where
  "DefaultDatabaseConfig = \<lparr>TableName = ''audit_logs''\<rparr>"

text \<open>The loop of \<open>createTable\<close> over the pieces between semicolons.\<close>

fun exec_statements :: "DB \<Rightarrow> string list \<Rightarrow> error option \<times> DB" where
  "exec_statements db [] = (None, db)"
| "exec_statements db (stmt # rest) =
     (if TrimSpace stmt = [] then exec_statements db rest
      else (case ExecContext db (TrimSpace stmt) of
              (Some err, db') \<Rightarrow> (Some err, db')
            | (None, db') \<Rightarrow> exec_statements db' rest))"

definition createTable :: "DatabaseStorage \<Rightarrow> DB \<Rightarrow> error option \<times> DB" where
  "createTable s db =
     (if dbType s = ''postgres''
      then exec_statements db (Split (createTableSQL_postgres (tableName s)) CHR '';'')
      else if dbType s = ''mysql''
      then exec_statements db (Split (createTableSQL_mysql (tableName s)) CHR '';'')
      else if dbType s = ''sqlite''
      then exec_statements db (Split (createTableSQL_sqlite (tableName s)) CHR '';'')
      else (Some (Err (''unsupported database type: '' @ dbType s)), db))"

text \<open>
  \<open>NewDatabaseStorageFromDB\<close>: the default configuration for \<open>nil\<close>, the check of the
  dialect, then \<open>createTable\<close>. The table name goes from the configuration into the
  storage and the SQL text as it is.
\<close>

definition NewDatabaseStorageFromDB ::
  "DB \<Rightarrow> string \<Rightarrow> DatabaseConfig option \<Rightarrow> (error + DatabaseStorage) \<times> DB" where
  "NewDatabaseStorageFromDB db dbt cfg =
     (let c = (case cfg of None \<Rightarrow> DefaultDatabaseConfig | Some c \<Rightarrow> c)
      in if dbt \<noteq> ''postgres'' \<and> dbt \<noteq> ''mysql'' \<and> dbt \<noteq> ''sqlite''
         then (Inl (Err (''unsupported database type: '' @ dbt)), db)
         else
           let st = \<lparr>dbType = dbt, tableName = TableName c\<rparr>
           in (case createTable st db of
                 (Some (Err msg), db') \<Rightarrow> (Inl (Err (''failed to create table: '' @ msg)), db')
               | (None, db') \<Rightarrow> (Inr st, db')))"

text \<open>
  \<open>NewDatabaseStorageWithConfig\<close>: the dialect is read off the URL, then \<open>sql.Open\<close>,
  \<open>PingContext\<close> and \<open>createTable\<close>. \<open>sqlOpen\<close> (from driver and data source name to
  a pool or an error) and \<open>ping\<close> are parameters. When the ping or \<open>createTable\<close> fails
  the pool is closed and only the error is returned. The first test compares the first
  ten bytes of the URL with the eleven bytes of \<open>postgres://\<close>.
\<close>

definition NewDatabaseStorageWithConfig ::
  "(string \<Rightarrow> string \<Rightarrow> error + DB) \<Rightarrow> (DB \<Rightarrow> error option) \<Rightarrow> string
     \<Rightarrow> DatabaseConfig option \<Rightarrow> error + (DatabaseStorage \<times> DB)" where
  "NewDatabaseStorageWithConfig sqlOpen ping databaseURL cfg =
     (let c = (case cfg of None \<Rightarrow> DefaultDatabaseConfig | Some c \<Rightarrow> c);
          detected =
            (if length databaseURL \<ge> 10 \<and> take 10 databaseURL = ''postgres://''
             then Some (''postgres'', ''postgres'', databaseURL)
             else if length databaseURL \<ge> 8 \<and> take 8 databaseURL = ''mysql://''
             then Some (''mysql'', ''mysql'', drop 8 databaseURL)
             else None)
      in case detected of
           None \<Rightarrow>
             Inl (Err ''unsupported database URL format, must start with postgres:// or mysql://'')
         | Some (dbt, driver, dsn) \<Rightarrow>
             (case sqlOpen driver dsn of
                Inl (Err msg) \<Rightarrow> Inl (Err (''failed to open database: '' @ msg))
              | Inr db \<Rightarrow>
                  (case ping db of
                     Some (Err msg) \<Rightarrow> Inl (Err (''failed to ping database: '' @ msg))
                   | None \<Rightarrow>
                       let st = \<lparr>dbType = dbt, tableName = TableName c\<rparr>
                       in (case createTable st db of
                             (Some (Err msg), db') \<Rightarrow> Inl (Err (''failed to create table: '' @ msg))
                           | (None, db') \<Rightarrow> Inr (st, db')))))"

section \<open>Filter normalisation\<close>

lemma Normalize_Limit:
  "Limit (Normalize f) = (if Limit f \<le> 0 then 100 else if Limit f > 1000 then 1000 else Limit f)"
  by (simp add: Normalize_def Let_def)

lemma Normalize_Offset:
  "Offset (Normalize f) = (if Offset f < 0 then 0 else Offset f)"
  by (simp add: Normalize_def Let_def)

lemma Normalize_fixed:
  "1 \<le> Limit f \<Longrightarrow> Limit f \<le> 1000 \<Longrightarrow> 0 \<le> Offset f \<Longrightarrow> Normalize f = f"
  by (simp add: Normalize_def Let_def)

lemma Normalize_other_fields:
  "EventType_f (Normalize f) = EventType_f f"
  "UserID_f (Normalize f) = UserID_f f"
  "ChallengeID_f (Normalize f) = ChallengeID_f f"
  "SessionID_f (Normalize f) = SessionID_f f"
  "Channel_f (Normalize f) = Channel_f f"
  "Result_f (Normalize f) = Result_f f"
  "IP_f (Normalize f) = IP_f f"
  "StartTime (Normalize f) = StartTime f"
  "EndTime (Normalize f) = EndTime f"
  by (simp_all add: Normalize_def Let_def)

text \<open>
  C8. \<open>Normalize\<close> puts \<open>Limit\<close> into \<open>[1, 1000]\<close> (a non-positive limit becomes the default
  100, a limit above 1000 becomes 1000, a limit already in range is kept), makes \<open>Offset\<close>
  non-negative (a negative offset becomes 0, any other is kept), and is idempotent:
  normalising twice gives the same filter as normalising once.
\<close>

theorem Normalize_clamps_and_is_idempotent:
  "1 \<le> Limit (Normalize f) \<and> Limit (Normalize f) \<le> 1000
   \<and> (Limit f \<le> 0 \<longrightarrow> Limit (Normalize f) = 100)
   \<and> (1000 < Limit f \<longrightarrow> Limit (Normalize f) = 1000)
   \<and> (1 \<le> Limit f \<and> Limit f \<le> 1000 \<longrightarrow> Limit (Normalize f) = Limit f)
   \<and> 0 \<le> Offset (Normalize f)
   \<and> (Offset f < 0 \<longrightarrow> Offset (Normalize f) = 0)
   \<and> (0 \<le> Offset f \<longrightarrow> Offset (Normalize f) = Offset f)
   \<and> Normalize (Normalize f) = Normalize f"
proof -
  have range: "1 \<le> Limit (Normalize f)" "Limit (Normalize f) \<le> 1000" "0 \<le> Offset (Normalize f)"
    by (simp_all add: Normalize_Limit Normalize_Offset)
  have idem: "Normalize (Normalize f) = Normalize f"
    using range by (rule Normalize_fixed)
  show ?thesis
    using range idem by (simp add: Normalize_Limit Normalize_Offset)
qed

theorem Normalize_clamps_and_is_idempotent_witness:
  "Limit (Normalize (WithOffset (- 5) (WithLimit 0 DefaultQueryFilter))) = 100
   \<and> Offset (Normalize (WithOffset (- 5) (WithLimit 0 DefaultQueryFilter))) = 0
   \<and> Limit (Normalize (WithOffset 7 (WithLimit 5000 DefaultQueryFilter))) = 1000
   \<and> Offset (Normalize (WithOffset 7 (WithLimit 5000 DefaultQueryFilter))) = 7
   \<and> Limit (Normalize (WithLimit 25 DefaultQueryFilter)) = 25
   \<and> Normalize (Normalize (WithOffset (- 5) (WithLimit 0 DefaultQueryFilter)))
       = Normalize (WithOffset (- 5) (WithLimit 0 DefaultQueryFilter))"
  using Normalize_clamps_and_is_idempotent [of "WithOffset (- 5) (WithLimit 0 DefaultQueryFilter)"]
    Normalize_clamps_and_is_idempotent [of "WithOffset 7 (WithLimit 5000 DefaultQueryFilter)"]
    Normalize_clamps_and_is_idempotent [of "WithLimit 25 DefaultQueryFilter"]
  by (simp add: WithOffset_def WithLimit_def DefaultQueryFilter_def)

section \<open>Fan-out: write to all, read from the first\<close>

lemma present_simps:
  "present [] = []"
  "present (None # ss) = present ss"
  "present (Some s # ss) = s # present ss"
  by (simp_all add: present_def)

lemma first_error_simps:
  "first_error [] = None"
  "first_error (None # es) = first_error es"
  "first_error (Some e # es) = Some e"
  by (simp_all add: first_error_def)

lemma MultiStorage_Write_loop_storages:
  "snd (MultiStorage_Write_loop ss c r fe) = map (map_option (\<lambda>s. snd (Storage_Write s c r))) ss"
proof (induction ss arbitrary: fe)
  case Nil
  show ?case by simp
next
  case (Cons x ss)
  show ?case
  proof (cases x)
    case None
    then show ?thesis using Cons.IH [of fe] by (simp add: case_prod_beta)
  next
    case (Some s)
    then show ?thesis
      using Cons.IH by (simp add: case_prod_beta)
  qed
qed

lemma MultiStorage_Write_loop_error:
  "fst (MultiStorage_Write_loop ss c r fe) =
     (case fe of
        Some e \<Rightarrow> Some e
      | None \<Rightarrow> first_error (map (\<lambda>s. fst (Storage_Write s c r)) (present ss)))"
proof (induction ss arbitrary: fe)
  case Nil
  show ?case by (simp add: present_simps first_error_simps split: option.splits)
next
  case (Cons x ss)
  show ?case
  proof (cases x)
    case None
    then show ?thesis
      using Cons.IH [of fe] by (simp add: present_simps case_prod_beta split: option.splits)
  next
    case (Some s)
    obtain err s' where w: "Storage_Write s c r = (err, s')" by (cases "Storage_Write s c r")
    show ?thesis
    proof (cases fe)
      case fe: None
      show ?thesis
        using Some w fe Cons.IH [of err]
        by (cases err) (simp_all add: present_simps first_error_simps case_prod_beta)
    next
      case fe: (Some e)
      show ?thesis
        using Some w fe Cons.IH [of fe]
        by (simp add: present_simps case_prod_beta)
    qed
  qed
qed

lemma MultiStorage_Query_loop_eq:
  "MultiStorage_Query_loop ss c f =
     (case present ss of
        [] \<Rightarrow> (Inl (Err ''no storage configured''), ss)
      | s # _ \<Rightarrow> (fst (Storage_Query s c f),
                  ss[length (takeWhile (\<lambda>x. x = None) ss) := Some (snd (Storage_Query s c f))]))"
proof (induction ss)
  case Nil
  show ?case by (simp add: present_simps)
next
  case (Cons x ss)
  show ?case
  proof (cases x)
    case None
    then show ?thesis
      using Cons.IH by (simp add: present_simps case_prod_beta split: list.splits)
  next
    case (Some s)
    then show ?thesis by (simp add: present_simps case_prod_beta)
  qed
qed

text \<open>
  C9. For any list of configured backends, \<open>MultiStorage.Write\<close> calls \<open>Write\<close> once on
  every backend that is not \<open>nil\<close>, whatever the earlier ones returned (each entry of the
  list ends in the state its own \<open>Write\<close> leaves), and returns the first error among the
  results in list order, \<open>nil\<close> when there is none. \<open>MultiStorage.Query\<close> returns what the
  first non-nil backend's \<open>Query\<close> returns and touches that backend only; with no non-nil
  backend it fails with \<open>no storage configured\<close>.
\<close>

theorem MultiStorage_writes_all_reads_first:
  "fst (MultiStorage_Write m c r)
     = first_error (map (\<lambda>s. fst (Storage_Write s c r)) (present (storages m)))
   \<and> storages (snd (MultiStorage_Write m c r))
     = map (map_option (\<lambda>s. snd (Storage_Write s c r))) (storages m)
   \<and> MultiStorage_Query m c f
     = (case present (storages m) of
          [] \<Rightarrow> (Inl (Err ''no storage configured''), m)
        | s # _ \<Rightarrow>
            (fst (Storage_Query s c f),
             m\<lparr>storages := (storages m)[length (takeWhile (\<lambda>x. x = None) (storages m))
                                          := Some (snd (Storage_Query s c f))]\<rparr>))"
proof -
  have e: "fst (MultiStorage_Write m c r)
      = first_error (map (\<lambda>s. fst (Storage_Write s c r)) (present (storages m)))"
    using MultiStorage_Write_loop_error [of "storages m" c r None]
    by (simp add: MultiStorage_Write_def case_prod_beta)
  have w: "storages (snd (MultiStorage_Write m c r))
      = map (map_option (\<lambda>s. snd (Storage_Write s c r))) (storages m)"
    using MultiStorage_Write_loop_storages [of "storages m" c r None]
    by (simp add: MultiStorage_Write_def case_prod_beta)
  have q: "MultiStorage_Query m c f
      = (case present (storages m) of
          [] \<Rightarrow> (Inl (Err ''no storage configured''), m)
        | s # _ \<Rightarrow>
            (fst (Storage_Query s c f),
             m\<lparr>storages := (storages m)[length (takeWhile (\<lambda>x. x = None) (storages m))
                                          := Some (snd (Storage_Query s c f))]\<rparr>))"
    by (simp add: MultiStorage_Query_def MultiStorage_Query_loop_eq case_prod_beta split: list.splits)
  from e w q show ?thesis by blast
qed

text \<open>
  The fan-out over \<open>nil\<close>, a backend that fails every call and a working mock: the mock
  still receives the record, the error of the failing backend is returned, and \<open>Query\<close>
  is answered by the failing backend alone.
\<close>

theorem MultiStorage_writes_all_reads_first_witness:
  "fst (MultiStorage_Write (NewMultiStorage [None, Some errorStorage, Some (mockStorage False)])
          False (NewRecord 7 ''login_success'' ''success'')) = Some (Err ''write error'')
   \<and> map (map_option (\<lambda>s. records (impl s)))
        (storages (snd (MultiStorage_Write
           (NewMultiStorage [None, Some errorStorage, Some (mockStorage False)])
           False (NewRecord 7 ''login_success'' ''success''))))
     = [None, Some [], Some [NewRecord 7 ''login_success'' ''success'']]
   \<and> fst (MultiStorage_Query (NewMultiStorage [None, Some errorStorage, Some (mockStorage False)])
          False DefaultQueryFilter) = Inl (Err ''query error'')"
  using MultiStorage_writes_all_reads_first
    [of "NewMultiStorage [None, Some errorStorage, Some (mockStorage False)]" False
        "NewRecord 7 ''login_success'' ''success''" DefaultQueryFilter]
  by (simp add: NewMultiStorage_def present_simps first_error_simps Storage_Write_def
      Storage_Query_def errorStorage_def mockStorage_def case_prod_beta)

section \<open>Writer: shutdown\<close>

lemma Storage_Write_methods:
  "CloseM (snd (Storage_Write s c r)) = CloseM s"
  by (simp add: Storage_Write_def case_prod_beta)

lemma writeRecord_frame:
  assumes "writeRecord i r w = Returned w'"
  shows "queueClosed w' = queueClosed w \<and> stopped w' = stopped w \<and> started w' = started w
         \<and> queue w' = queue w \<and> map_option CloseM (storage w') = map_option CloseM (storage w)"
proof (cases "storage w")
  case None
  with assms show ?thesis by (simp add: writeRecord_def)
next
  case (Some s)
  obtain e s' where sw: "Storage_Write s (ctxCancelled w) r = (e, s')"
    by (cases "Storage_Write s (ctxCancelled w) r")
  have "CloseM s' = CloseM s"
    using Storage_Write_methods [of s "ctxCancelled w" r] sw by simp
  with assms Some sw show ?thesis
    by (cases e) (auto simp: writeRecord_def)
qed

lemma worker_receive_frame:
  assumes "worker_receive i w = Returned w'"
  shows "queueClosed w' = queueClosed w \<and> stopped w' = stopped w \<and> started w' = started w
         \<and> map_option CloseM (storage w') = map_option CloseM (storage w)"
proof (cases "queue w")
  case Nil
  with assms show ?thesis by (simp add: worker_receive_def)
next
  case (Cons r rest)
  with assms have "writeRecord i r (w\<lparr>queue := rest\<rparr>) = Returned w'"
    by (simp add: worker_receive_def)
  from writeRecord_frame [OF this] show ?thesis by simp
qed

lemma run_workers_frame:
  "run_workers sched w = Returned w' \<Longrightarrow>
     queueClosed w' = queueClosed w \<and> stopped w' = stopped w \<and> started w' = started w
     \<and> map_option CloseM (storage w') = map_option CloseM (storage w)"
proof (induction sched arbitrary: w)
  case Nil
  then show ?case by simp
next
  case (Cons i sched)
  then obtain w1 where a: "worker_receive i w = Returned w1" and b: "run_workers sched w1 = Returned w'"
    by (auto split: outcome.splits)
  from worker_receive_frame [OF a] Cons.IH [OF b] show ?case by simp
qed

lemma writeRecord_returns: "storage w \<noteq> None \<Longrightarrow> \<exists>w'. writeRecord i r w = Returned w'"
  by (auto simp: writeRecord_def split: option.splits prod.splits)

lemma writeRecord_storage: "writeRecord i r w = Returned w' \<Longrightarrow> storage w \<noteq> None \<and> storage w' \<noteq> None"
  by (auto simp: writeRecord_def split: option.splits prod.splits)

lemma worker_receive_returns:
  "storage w \<noteq> None \<Longrightarrow> \<exists>w'. worker_receive i w = Returned w' \<and> storage w' \<noteq> None"
proof (cases "queue w")
  case Nil
  then show "storage w \<noteq> None \<Longrightarrow> ?thesis" by (simp add: worker_receive_def)
next
  case (Cons r rest)
  assume "storage w \<noteq> None"
  then obtain w' where wr: "writeRecord i r (w\<lparr>queue := rest\<rparr>) = Returned w'"
    using writeRecord_returns [of "w\<lparr>queue := rest\<rparr>" i r] by auto
  from writeRecord_storage [OF wr] have "storage w' \<noteq> None" by simp
  with wr Cons show ?thesis by (simp add: worker_receive_def)
qed

lemma worker_receive_empty: "queue w = [] \<Longrightarrow> worker_receive i w = Returned w"
  by (simp add: worker_receive_def)

lemma run_workers_empty: "queue w = [] \<Longrightarrow> run_workers sched w = Returned w"
  by (induction sched) (simp_all add: worker_receive_empty)

lemma run_workers_returns:
  "storage w \<noteq> None \<Longrightarrow> \<exists>w'. run_workers sched w = Returned w'"
proof (induction sched arbitrary: w)
  case Nil
  show ?case by simp
next
  case (Cons i sched)
  from worker_receive_returns [OF Cons.prems, of i]
  obtain w1 where a: "worker_receive i w = Returned w1" and b: "storage w1 \<noteq> None" by blast
  from Cons.IH [OF b] a show ?case by simp
qed

lemma Stop_returns:
  assumes "storage w \<noteq> None \<or> queue w = []"
  shows "\<exists>e w'. Stop sched w = Returned (e, w')"
proof (cases "\<not> started w \<or> stopped w")
  case True
  then show ?thesis by (simp add: Stop_def)
next
  case False
  define w4 where "w4 = w\<lparr>stopped := True,
      trace := trace w @ [LogLine ''[audit] Stopping audit log writer...''],
      ctxCancelled := True, queueClosed := True\<rparr>"
  have "storage w4 \<noteq> None \<or> queue w4 = []" using assms by (simp add: w4_def)
  then obtain w5 where r: "run_workers [] w4 = Returned w4" "run_workers sched w4 = Returned w5"
    using run_workers_returns [of w4 sched] run_workers_empty [of w4 sched] by auto
  show ?thesis
    using False r(2)
    by (simp add: Stop_def Let_def w4_def split: option.splits prod.splits)
qed

lemma Stop_first:
  assumes "started w" "\<not> stopped w" "Stop sched w = Returned (e, w')"
  shows "stopped w' \<and> started w' \<and> queueClosed w'"
proof -
  define w4 where "w4 = w\<lparr>stopped := True,
      trace := trace w @ [LogLine ''[audit] Stopping audit log writer...''],
      ctxCancelled := True, queueClosed := True\<rparr>"
  from assms obtain w5 where r: "run_workers sched w4 = Returned w5"
    by (auto simp: Stop_def Let_def w4_def split: outcome.splits)
  from run_workers_frame [OF r] assms(1)
  have f: "stopped w5" "started w5" "queueClosed w5" by (simp_all add: w4_def)
  from assms r f show ?thesis
    by (auto simp: Stop_def Let_def w4_def split: option.splits prod.splits)
qed

lemma Stop_first_error:
  assumes "started w" "\<not> stopped w" "Stop sched w = Returned (e, w')"
    and "case storage w of None \<Rightarrow> True | Some s \<Rightarrow> \<forall>st. fst (CloseM s st) = None"
  shows "e = None"
proof -
  define w4 where "w4 = w\<lparr>stopped := True,
      trace := trace w @ [LogLine ''[audit] Stopping audit log writer...''],
      ctxCancelled := True, queueClosed := True\<rparr>"
  from assms obtain w5 where r: "run_workers sched w4 = Returned w5"
    by (auto simp: Stop_def Let_def w4_def split: outcome.splits)
  from run_workers_frame [OF r]
  have m: "map_option CloseM (storage w5) = map_option CloseM (storage w)" by (simp add: w4_def)
  show ?thesis
  proof (cases "storage w5")
    case None
    with assms(1-3) r show ?thesis by (simp add: Stop_def Let_def w4_def)
  next
    case (Some s5)
    with m obtain s where s: "storage w = Some s" "CloseM s5 = CloseM s" by (cases "storage w") auto
    with assms(4) have "fst (CloseM s5 (impl s5)) = None" by simp
    with assms(1-3) r Some show ?thesis
      by (auto simp: Stop_def Let_def w4_def Storage_Close_def split: prod.splits)
  qed
qed

text \<open>
  C1, on the code. On a started writer a completed \<open>Stop\<close> has closed the queue, and
  \<open>Enqueue\<close> sends on the queue without looking at \<open>stopped\<close>: every later \<open>Enqueue\<close>
  panics with \<open>send on closed channel\<close> instead of returning \<open>false\<close>.
\<close>

theorem Enqueue_after_Stop_panics:
  assumes "started w" "\<not> stopped w" "Stop sched w = Returned (e, w')"
  shows "Enqueue r w' = Panicked ''send on closed channel''"
  using Stop_first [OF assms] by (simp add: Enqueue_def)

text \<open>
  The scenario of \<open>TestWriter_EnqueueAfterStop\<close>: queue size 10, one worker, \<open>Start\<close>,
  \<open>Stop\<close>, then \<open>Enqueue\<close>.
\<close>

theorem Enqueue_after_Stop_panics_witness:
  "returned (Stop [] (Start (NewWriter (Some (mockStorage False))
      (Some \<lparr>QueueSize = 10, Workers = 1, StopTimeout = 0\<rparr>)))) \<noteq> None
   \<and> Enqueue (NewRecord 1700000000 ''login_success'' ''success'')
       (snd (the (returned (Stop [] (Start (NewWriter (Some (mockStorage False))
          (Some \<lparr>QueueSize = 10, Workers = 1, StopTimeout = 0\<rparr>)))))))
     = Panicked ''send on closed channel''"
proof -
  let ?w = "Start (NewWriter (Some (mockStorage False))
      (Some \<lparr>QueueSize = 10, Workers = 1, StopTimeout = 0\<rparr>))"
  have s: "started ?w" "\<not> stopped ?w" "storage ?w \<noteq> None \<or> queue ?w = []"
    by (simp_all add: Start_def NewWriter_def Let_def)
  from Stop_returns [OF s(3), of "[]"] obtain e w' where r: "Stop [] ?w = Returned (e, w')"
    by blast
  from Enqueue_after_Stop_panics [OF s(1) s(2) r, of "NewRecord 1700000000 ''login_success'' ''success''"] r
  show ?thesis by (simp add: returned_def)
qed

lemma Stop_result:
  assumes "started w" "\<not> stopped w" "run_workers sched (begin_stop w) = Returned w5"
  shows "\<exists>w1. Stop sched w
             = Returned (case storage w5 of None \<Rightarrow> None | Some s \<Rightarrow> fst (Storage_Close s), w1)
           \<and> storage w1 = map_option (\<lambda>s. snd (Storage_Close s)) (storage w5)"
  using assms
  by (cases "storage w5")
     (auto simp: Stop_def Let_def begin_stop_def case_prod_beta)

lemma begin_stop_returns:
  assumes "storage w \<noteq> None \<or> queue w = []"
  shows "\<exists>w5. run_workers sched (begin_stop w) = Returned w5"
proof -
  have "storage (begin_stop w) \<noteq> None \<or> queue (begin_stop w) = []"
    using assms by (simp add: begin_stop_def)
  then show ?thesis
    using run_workers_returns [of "begin_stop w" sched] run_workers_empty [of "begin_stop w" sched]
    by auto
qed

text \<open>
  C7, as amended. On a started writer, not yet stopped, that has a backend, or has
  none and an empty queue, \<open>Stop\<close> returns. Its first call returns the result of the backend's \<open>Close\<close>,
  called on the backend as the workers left it, and leaves the backend as that \<open>Close\<close>
  left it (\<open>nil\<close> when there is no backend; in particular \<open>nil\<close> when the \<open>Close\<close> of the
  configured backend cannot fail, and the error whenever that \<open>Close\<close> fails). The
  second call returns \<open>nil\<close> and leaves the writer, backend included, exactly as the
  first call left it (no shutdown step runs again), with \<open>Stopped\<close> true.
\<close>

theorem Stop_twice:
  assumes "started w" "\<not> stopped w" "storage w \<noteq> None \<or> queue w = []"
  shows "\<exists>w5 e1 w1.
           run_workers sched (begin_stop w) = Returned w5
           \<and> map_option CloseM (storage w5) = map_option CloseM (storage w)
           \<and> Stop sched w = Returned (e1, w1)
           \<and> e1 = (case storage w5 of None \<Rightarrow> None | Some s \<Rightarrow> fst (Storage_Close s))
           \<and> storage w1 = map_option (\<lambda>s. snd (Storage_Close s)) (storage w5)
           \<and> Stop sched' w1 = Returned (None, w1)
           \<and> stopped w1 \<and> Stopped (GetStats w1)
           \<and> ((case storage w of None \<Rightarrow> True | Some s \<Rightarrow> \<forall>st. fst (CloseM s st) = None)
                \<longrightarrow> e1 = None)"
proof -
  from begin_stop_returns [OF assms(3), of sched] obtain w5 where
    d: "run_workers sched (begin_stop w) = Returned w5" by blast
  from run_workers_frame [OF d]
  have m: "map_option CloseM (storage w5) = map_option CloseM (storage w)"
    by (simp add: begin_stop_def)
  from Stop_result [OF assms(1,2) d] obtain w1 where
    r: "Stop sched w
          = Returned (case storage w5 of None \<Rightarrow> None | Some s \<Rightarrow> fst (Storage_Close s), w1)"
    and st: "storage w1 = map_option (\<lambda>s. snd (Storage_Close s)) (storage w5)" by blast
  from Stop_first [OF assms(1,2) r] have f: "stopped w1" "started w1" by simp_all
  then have second: "Stop sched' w1 = Returned (None, w1)" by (simp add: Stop_def)
  have g: "Stopped (GetStats w1)" using f by (simp add: GetStats_def)
  note e = Stop_first_error [OF assms(1,2) r]
  from d m r st second f(1) g e show ?thesis by blast
qed

text \<open>
  \<open>TestWriter_StartStop\<close> with one record queued: both calls return \<open>nil\<close> and the mock
  has been closed once, not twice. With \<open>errorStorage\<close> as backend the first call returns
  its \<open>close error\<close>, the second \<open>nil\<close>.
\<close>

theorem Stop_twice_witness:
  "(\<exists>w0 w1. Enqueue (NewRecord 5 ''logout'' ''success'')
              (Start (NewWriter (Some (mockStorage False))
                 (Some \<lparr>QueueSize = 10, Workers = 2, StopTimeout = 0\<rparr>))) = Returned (True, w0)
     \<and> Stop [0] w0 = Returned (None, w1)
     \<and> Stop [1] w1 = Returned (None, w1)
     \<and> Stopped (GetStats w1)
     \<and> map_option (\<lambda>s. closeCalls (impl s)) (storage w1) = Some 1)
   \<and> (\<exists>w1. Stop [] (Start (NewWriter (Some errorStorage) None))
                = Returned (Some (Err ''close error''), w1)
          \<and> Stop [] w1 = Returned (None, w1)
          \<and> Stopped (GetStats w1))"
proof -
  let ?w = "Start (NewWriter (Some (mockStorage False))
      (Some \<lparr>QueueSize = 10, Workers = 2, StopTimeout = 0\<rparr>))"
  obtain w0 where w0: "w0 = ?w\<lparr>queue := [NewRecord 5 ''logout'' ''success'']\<rparr>" by simp
  have enq: "Enqueue (NewRecord 5 ''logout'' ''success'') ?w = Returned (True, w0)"
    by (simp add: w0 Enqueue_def Start_def NewWriter_def Let_def)
  have s: "started w0" "\<not> stopped w0" "storage w0 \<noteq> None \<or> queue w0 = []"
    by (simp_all add: w0 Start_def NewWriter_def Let_def)
  have c: "case storage w0 of None \<Rightarrow> True | Some s \<Rightarrow> \<forall>st. fst (CloseM s st) = None"
    by (simp add: w0 Start_def NewWriter_def Let_def mockStorage_def)
  from Stop_twice [OF s, of "[0]" "[1]"] obtain x5 e1 w1 where
    x: "Stop [0] w0 = Returned (e1, w1)" "Stop [1] w1 = Returned (None, w1)" "Stopped (GetStats w1)"
       "(case storage w0 of None \<Rightarrow> True | Some s \<Rightarrow> \<forall>st. fst (CloseM s st) = None) \<longrightarrow> e1 = None"
    by blast
  from x(4) c have "e1 = None" by (rule mp)
  with x have
    r: "Stop [0] w0 = Returned (None, w1)" "Stop [1] w1 = Returned (None, w1)" "Stopped (GetStats w1)"
    by simp_all
  have "map_option (\<lambda>s. closeCalls (impl s)) (storage w1) = Some 1"
    using r(1)
    by (auto simp: w0 Stop_def Start_def NewWriter_def Let_def worker_receive_def writeRecord_def
        Storage_Write_def Storage_Close_def mockStorage_def)
  with enq r have first: "\<exists>w0 w1. Enqueue (NewRecord 5 ''logout'' ''success'') ?w = Returned (True, w0)
     \<and> Stop [0] w0 = Returned (None, w1)
     \<and> Stop [1] w1 = Returned (None, w1)
     \<and> Stopped (GetStats w1)
     \<and> map_option (\<lambda>s. closeCalls (impl s)) (storage w1) = Some 1" by blast
  let ?v = "Start (NewWriter (Some errorStorage) None)"
  have t: "started ?v" "\<not> stopped ?v" "storage ?v \<noteq> None \<or> queue ?v = []"
    by (simp_all add: Start_def NewWriter_def Let_def)
  have idle: "run_workers [] (begin_stop ?v) = Returned (begin_stop ?v)" by simp
  have cl: "(case storage (begin_stop ?v) of None \<Rightarrow> None | Some s \<Rightarrow> fst (Storage_Close s))
      = Some (Err ''close error'')"
    by (simp add: begin_stop_def Start_def NewWriter_def Let_def Storage_Close_def errorStorage_def)
  from Stop_twice [OF t, of "[]" "[]"] obtain w5 e1 v1 where
    u: "run_workers [] (begin_stop ?v) = Returned w5"
       "Stop [] ?v = Returned (e1, v1)"
       "e1 = (case storage w5 of None \<Rightarrow> None | Some s \<Rightarrow> fst (Storage_Close s))"
       "Stop [] v1 = Returned (None, v1)" "Stopped (GetStats v1)"
    by blast
  from u(1) idle have "w5 = begin_stop ?v" by simp
  with u(3) cl have "e1 = Some (Err ''close error'')" by simp
  with u(2,4,5) have second: "\<exists>w1. Stop [] ?v = Returned (Some (Err ''close error''), w1)
          \<and> Stop [] w1 = Returned (None, w1) \<and> Stopped (GetStats w1)" by blast
  from first second show ?thesis by blast
qed

text \<open>
  Without the amendment C7 fails on a backend whose \<open>Close\<close> fails, such as
  \<open>errorStorage\<close> of the storage tests: the first \<open>Stop\<close> returns that error.
\<close>

theorem Stop_returns_close_error:
  "map_option fst (returned (Stop [] (Start (NewWriter (Some errorStorage) None))))
     = Some (Some (Err ''close error''))"
  by (simp add: returned_def Stop_def Start_def NewWriter_def Let_def DefaultWriterConfig_def
      Storage_Close_def errorStorage_def)

section \<open>Logger: disabled logging\<close>

text \<open>
  C10. With \<open>Enabled\<close> false, \<open>Log\<close> returns at once for every record: the record comes
  back as it was (no timestamp assigned, no destination masked) and the logger, with its
  backend, its writer and queue and the trace of its callback, is unchanged.
\<close>

theorem Log_disabled_changes_nothing:
  "\<not> Enabled (config l) \<Longrightarrow> Log now maskPhone maskEmail ctxDone r l = Returned (r, l)"
  by (simp add: Log_def)

theorem Log_disabled_changes_nothing_witness:
  "Log 1700000000 (\<lambda>d. ''138****8000'') (\<lambda>d. ''u***@example.com'') False
      ((NewRecord 0 ''send_success'' ''success'')\<lparr>Channel := ''email'', Destination := ''user@example.com''\<rparr>)
      (SetLogCallback (NewLogger (Some (mockStorage False)) (Some (DefaultConfig\<lparr>Enabled := False\<rparr>))))
   = Returned
      ((NewRecord 0 ''send_success'' ''success'')\<lparr>Channel := ''email'', Destination := ''user@example.com''\<rparr>,
       SetLogCallback (NewLogger (Some (mockStorage False)) (Some (DefaultConfig\<lparr>Enabled := False\<rparr>))))"
  using Log_disabled_changes_nothing
    [of "SetLogCallback (NewLogger (Some (mockStorage False)) (Some (DefaultConfig\<lparr>Enabled := False\<rparr>)))"
        1700000000 "\<lambda>d. ''138****8000''" "\<lambda>d. ''u***@example.com''" False
        "(NewRecord 0 ''send_success'' ''success'')\<lparr>Channel := ''email'', Destination := ''user@example.com''\<rparr>"]
  by (simp add: SetLogCallback_def NewLogger_def DefaultConfig_def)

section \<open>Relational backend: the table name at construction\<close>

lemma split_on_prefix:
  "sep \<notin> set a \<Longrightarrow> split_on sep (a @ sep # rest) cur = (cur @ a) # split_on sep rest []"
  by (induction a arbitrary: cur) auto

lemma sql_text_head:
  "\<exists>rest. sql_text ((2, a @ t @ b) # ls) = newline # CHR 0x09 # CHR 0x09 # a @ t @ rest"
  by (simp add: sql_text_def eval_nat_numeral)

lemma sqlite_head:
  "\<exists>rest. createTableSQL_sqlite t
     = newline # CHR 0x09 # CHR 0x09 # ''CREATE TABLE IF NOT EXISTS '' @ t @ rest"
  unfolding createTableSQL_sqlite_def by (rule sql_text_head)

lemma exec_statements_appends:
  "\<exists>more. execCalls (snd (exec_statements db ss)) = execCalls db @ more"
proof (induction ss arbitrary: db)
  case Nil
  show ?case by simp
next
  case (Cons stmt rest)
  show ?case
  proof (cases "TrimSpace stmt = []")
    case True
    then show ?thesis using Cons.IH [of db] by simp
  next
    case False
    show ?thesis
    proof (cases "accepts db (TrimSpace stmt)")
      case True
      from Cons.IH [of "db\<lparr>execCalls := execCalls db @ [TrimSpace stmt]\<rparr>"]
      show ?thesis using False True by (auto simp: ExecContext_def)
    next
      case no: False
      then show ?thesis using False by (simp add: ExecContext_def)
    qed
  qed
qed

lemma exec_statements_first:
  assumes "TrimSpace stmt \<noteq> []"
  shows "\<exists>more. execCalls (snd (exec_statements db (stmt # rest)))
           = execCalls db @ TrimSpace stmt # more"
proof (cases "accepts db (TrimSpace stmt)")
  case True
  from exec_statements_appends [of "db\<lparr>execCalls := execCalls db @ [TrimSpace stmt]\<rparr>" rest]
  show ?thesis using assms True by (auto simp: ExecContext_def)
next
  case False
  then show ?thesis using assms by (simp add: ExecContext_def)
qed

lemma exec_statements_accepting:
  "\<forall>stmt. accepts db stmt \<Longrightarrow> fst (exec_statements db ss) = None"
proof (induction ss arbitrary: db)
  case Nil
  show ?case by simp
next
  case (Cons stmt rest)
  have "\<forall>x. accepts (db\<lparr>execCalls := execCalls db @ [TrimSpace stmt]\<rparr>) x" using Cons.prems by simp
  from Cons.IH [OF this] Cons.IH [OF Cons.prems] Cons.prems
  show ?case by (simp add: ExecContext_def)
qed

lemma trim_head:
  "TrimSpace (newline # CHR 0x09 # CHR 0x09 # ''CREATE TABLE IF NOT EXISTS bad'')
     = ''CREATE TABLE IF NOT EXISTS bad''"
  by (simp add: TrimSpace_def is_space_def)


text \<open>
  C2, on the code. \<open>NewDatabaseStorageFromDB\<close> does not look at the table name. With
  the name \<open>bad; drop table x\<close> and the dialect \<open>sqlite\<close>, the first thing it does with
  the connection is to hand it the statement \<open>CREATE TABLE IF NOT EXISTS bad\<close>, whatever
  the engine answers; and on a connection that accepts every statement the construction
  succeeds, with that table name.
\<close>

theorem NewDatabaseStorageFromDB_splices_table_name:
  "fst (NewDatabaseStorageFromDB \<lparr>execCalls = [], accepts = (\<lambda>stmt. True)\<rparr> ''sqlite''
          (Some \<lparr>TableName = ''bad; drop table x''\<rparr>))
     = Inr \<lparr>dbType = ''sqlite'', tableName = ''bad; drop table x''\<rparr>
   \<and> take 1 (execCalls (snd (NewDatabaseStorageFromDB \<lparr>execCalls = [], accepts = engine\<rparr> ''sqlite''
          (Some \<lparr>TableName = ''bad; drop table x''\<rparr>))))
     = [''CREATE TABLE IF NOT EXISTS bad'']"
proof -
  let ?st = "\<lparr>dbType = ''sqlite'', tableName = ''bad; drop table x''\<rparr>"
  obtain rest where sql: "createTableSQL_sqlite ''bad; drop table x''
      = (newline # CHR 0x09 # CHR 0x09 # ''CREATE TABLE IF NOT EXISTS bad'') @ CHR '';'' # '' drop table x'' @ rest"
    using sqlite_head [of "''bad; drop table x''"] by auto
  have sp: "Split (createTableSQL_sqlite ''bad; drop table x'') CHR '';''
      = (newline # CHR 0x09 # CHR 0x09 # ''CREATE TABLE IF NOT EXISTS bad'')
          # split_on CHR '';'' ('' drop table x'' @ rest) []"
    unfolding Split_def sql
    by (subst split_on_prefix) simp_all
  have ct: "createTable ?st db
      = exec_statements db ((newline # CHR 0x09 # CHR 0x09 # ''CREATE TABLE IF NOT EXISTS bad'')
          # split_on CHR '';'' ('' drop table x'' @ rest) [])" for db
    using sp by (simp add: createTable_def)
  have ok: "fst (createTable ?st \<lparr>execCalls = [], accepts = (\<lambda>stmt. True)\<rparr>) = None"
    unfolding ct by (rule exec_statements_accepting) simp
  have a: "fst (NewDatabaseStorageFromDB \<lparr>execCalls = [], accepts = (\<lambda>stmt. True)\<rparr> ''sqlite''
          (Some \<lparr>TableName = ''bad; drop table x''\<rparr>)) = Inr ?st"
    using ok
    by (cases "createTable ?st \<lparr>execCalls = [], accepts = (\<lambda>stmt. True)\<rparr>")
       (simp add: NewDatabaseStorageFromDB_def)
  obtain more where m: "execCalls (snd (createTable ?st \<lparr>execCalls = [], accepts = engine\<rparr>))
      = ''CREATE TABLE IF NOT EXISTS bad'' # more"
    using exec_statements_first [of "newline # CHR 0x09 # CHR 0x09 # ''CREATE TABLE IF NOT EXISTS bad''"
        "\<lparr>execCalls = [], accepts = engine\<rparr>" "split_on CHR '';'' ('' drop table x'' @ rest) []"]
    unfolding ct trim_head by auto
  have b: "take 1 (execCalls (snd (NewDatabaseStorageFromDB \<lparr>execCalls = [], accepts = engine\<rparr> ''sqlite''
          (Some \<lparr>TableName = ''bad; drop table x''\<rparr>)))) = [''CREATE TABLE IF NOT EXISTS bad'']"
    using m
    by (cases "createTable ?st \<lparr>execCalls = [], accepts = engine\<rparr>")
       (auto simp: NewDatabaseStorageFromDB_def split: option.splits error.splits)
  from a b show ?thesis by blast
qed

section \<open>File backend: what a query reads\<close>

lemma paginate_loop_eq:
  "1 \<le> Limit f \<Longrightarrow> 0 \<le> off \<Longrightarrow> off \<le> Offset f \<Longrightarrow> int (length res) < Limit f \<Longrightarrow>
   paginate_loop rs f off res =
     res @ take (nat (Limit f) - length res)
             (drop (nat (Offset f - off)) (filter (\<lambda>r. matchesFilter r f) rs))"
proof (induction rs arbitrary: off res)
  case Nil
  then show ?case by simp
next
  case (Cons r rs)
  show ?case
  proof (cases "matchesFilter r f")
    case False
    then show ?thesis using Cons by simp
  next
    case True
    show ?thesis
    proof (cases "off < Offset f")
      case lt: True
      have "nat (Offset f - off) = Suc (nat (Offset f - (off + 1)))" using lt by simp
      then show ?thesis
        using True lt Cons.IH [of "off + 1" res] Cons.prems by simp
    next
      case ge: False
      then have eq: "Offset f - off = 0" using Cons.prems by simp
      obtain k where k: "nat (Limit f) - length res = Suc k" using Cons.prems
        by (cases "nat (Limit f) - length res") auto
      show ?thesis
      proof (cases "Limit f \<le> int (length (res @ [r]))")
        case full: True
        then have "k = 0" using k Cons.prems by simp
        then show ?thesis using True ge eq k full by simp
      next
        case room: False
        have "nat (Limit f) - length (res @ [r]) = k" using k by simp
        then show ?thesis
          using True ge eq k room Cons.IH [of off "res @ [r]"] Cons.prems by simp
      qed
    qed
  qed
qed

lemma effective_filter_range:
  "1 \<le> Limit (effective_filter flt)" "Limit (effective_filter flt) \<le> 1000"
  "0 \<le> Offset (effective_filter flt)"
  by (simp_all add: effective_filter_def Normalize_Limit Normalize_Offset)

lemma paginate_loop_normalized:
  "paginate_loop rs (effective_filter flt) 0 [] =
     take (nat (Limit (effective_filter flt)))
       (drop (nat (Offset (effective_filter flt)))
          (filter (\<lambda>r. matchesFilter r (effective_filter flt)) rs))"
  using paginate_loop_eq [of "effective_filter flt" 0 "[]" rs] effective_filter_range [of flt]
  by simp

lemma scan_loop_ok:
  "\<not> ctxDone \<Longrightarrow> \<forall>l\<in>set ls. length l < max 64 maxSize \<Longrightarrow>
   scan_loop maxSize decode ctxDone ls acc = Inr (acc @ List.map_filter (line_record maxSize decode) ls)"
  by (induction ls arbitrary: acc)
     (auto simp: line_record_def List.map_filter_simps split: option.splits)

lemma scan_loop_too_long:
  "\<not> ctxDone \<Longrightarrow> \<exists>l\<in>set ls. max 64 maxSize \<le> length l \<Longrightarrow>
   scan_loop maxSize decode ctxDone ls acc = Inl (Err ''failed to read file: bufio.Scanner: token too long'')"
  by (induction ls arbitrary: acc) (auto split: option.splits)

lemma split_lines_line:
  "newline \<notin> set l \<Longrightarrow> split_lines (l @ newline # rest) cur = (cur @ l) # split_lines rest []"
  by (induction l arbitrary: cur) auto

lemma split_lines_concat:
  "\<forall>l\<in>set ls. newline \<notin> set l \<Longrightarrow> split_lines (concat (map (\<lambda>l. l @ [newline]) ls)) [] = ls"
  by (induction ls) (simp_all add: split_lines_line)

lemma stat_file:
  "stat fs p = Some (File m c) \<Longrightarrow> \<exists>q. resolve 40 fs p = Some q \<and> fs_lookup fs q = Some (File m c)"
  by (auto simp: stat_def split: option.splits)

lemma FileStorage_Query_eq:
  assumes "stat fs (filePath s) = Some (File m c)" and "\<not> ctxDone"
  shows "FileStorage_Query maxSize decode s fs ctxDone flt =
     (if \<exists>l\<in>set (split_lines c []). max 64 maxSize \<le> length l
      then Inl (Err ''failed to read file: bufio.Scanner: token too long'')
      else Inr (take (nat (Limit (effective_filter flt)))
                 (drop (nat (Offset (effective_filter flt)))
                    (filter (\<lambda>r. matchesFilter r (effective_filter flt))
                       (rev (List.map_filter (line_record maxSize decode) (split_lines c [])))))))"
proof -
  from stat_file [OF assms(1)] obtain q where
    q: "resolve 40 fs (filePath s) = Some q" "fs_lookup fs q = Some (File m c)" by blast
  show ?thesis
  proof (cases "\<exists>l\<in>set (split_lines c []). max 64 maxSize \<le> length l")
    case True
    from scan_loop_too_long [OF assms(2) True, of decode "[]"] True q
    show ?thesis by (simp add: FileStorage_Query_def Let_def)
  next
    case False
    then have "\<forall>l\<in>set (split_lines c []). length l < max 64 maxSize" by auto
    from scan_loop_ok [OF assms(2) this, of decode "[]"] False q
    show ?thesis
      using paginate_loop_normalized [of "rev (List.map_filter (line_record maxSize decode) (split_lines c []))" flt]
      by (simp add: FileStorage_Query_def Let_def effective_filter_def)
  qed
qed

lemma stat_file_with: "stat (snd (file_with c)) (filePath (fst (file_with c))) = Some (File 420 c)"
  by (simp add: file_with_def stat_def fs_lookup_def eval_nat_numeral)

text \<open>
  C5, as amended. For every stored file, \<open>Query\<close> skips empty lines and lines that fail
  to parse and returns the matches among the records of the remaining lines, newest
  line first, after offset and limit. A line is not skipped for its size: a line of
  \<open>max 64 MaxRecordJSONSize\<close> bytes or more anywhere in the file makes the scanner fail,
  and \<open>Query\<close> returns the error \<open>token too long\<close> and no records.
\<close>

theorem FileStorage_Query_skips_unparsable_lines:
  assumes "stat fs (filePath s) = Some (File m c)" and "\<not> ctxDone"
  shows "FileStorage_Query maxSize decode s fs ctxDone flt =
     (if \<exists>l\<in>set (split_lines c []). max 64 maxSize \<le> length l
      then Inl (Err ''failed to read file: bufio.Scanner: token too long'')
      else Inr (take (nat (Limit (effective_filter flt)))
                 (drop (nat (Offset (effective_filter flt)))
                    (filter (\<lambda>r. matchesFilter r (effective_filter flt))
                       (rev (List.map_filter (line_record maxSize decode) (split_lines c [])))))))"
  using assms by (rule FileStorage_Query_eq)

text \<open>
  A file with a record, an empty line, a line that does not decode, a record ending in a
  carriage return and another line that does not decode: the two records come back.
\<close>

theorem FileStorage_Query_skips_unparsable_lines_witness:
  "FileStorage_Query 1048576 demo_decode
     (fst (file_with (''one'' @ [newline, newline] @ ''{'' @ [newline] @ ''two'' @ [CHR 0x0D, newline]
                       @ ''not json'' @ [newline])))
     (snd (file_with (''one'' @ [newline, newline] @ ''{'' @ [newline] @ ''two'' @ [CHR 0x0D, newline]
                       @ ''not json'' @ [newline])))
     False None
   = Inr [NewRecord 2 [] [], NewRecord 1 [] []]"
  using FileStorage_Query_skips_unparsable_lines
    [OF stat_file_with, of False 1048576 demo_decode
       "''one'' @ [newline, newline] @ ''{'' @ [newline] @ ''two'' @ [CHR 0x0D, newline] @ ''not json'' @ [newline]"
       None]
  by (simp add: List.map_filter_simps line_record_def dropCR_def demo_decode_def
      effective_filter_def Normalize_def DefaultQueryFilter_def matchesFilter_def NewRecord_def)

text \<open>
  The file of \<open>TestFileStorage_Query_OversizedLine\<close>, a record followed by a line of
  \<open>MaxRecordJSONSize + 1\<close> bytes: the query fails, the record of the first line is not
  returned.
\<close>

theorem FileStorage_Query_oversized_line_is_fatal:
  "FileStorage_Query 1048576 demo_decode
     (fst (file_with (''one'' @ [newline] @ ''{}'' @ replicate 1048575 (CHR 0x00) @ [newline])))
     (snd (file_with (''one'' @ [newline] @ ''{}'' @ replicate 1048575 (CHR 0x00) @ [newline])))
     False (Some DefaultQueryFilter)
   = Inl (Err ''failed to read file: bufio.Scanner: token too long'')"
proof -
  have sp: "split_lines (''one'' @ [newline] @ ''{}'' @ replicate 1048575 (CHR 0x00) @ [newline]) []
      = [''one'', ''{}'' @ replicate 1048575 (CHR 0x00)]"
    using split_lines_line [of "replicate 1048575 (CHR 0x00)" "[]" "''{}''"]
    by simp
  show ?thesis
    using FileStorage_Query_eq [OF stat_file_with, of False 1048576 demo_decode
       "''one'' @ [newline] @ ''{}'' @ replicate 1048575 (CHR 0x00) @ [newline]" "Some DefaultQueryFilter"]
    unfolding sp by simp
qed

section \<open>Redis backend: keys\<close>

lemma digit_char_mem: "n < 10 \<Longrightarrow> digit_char n \<in> set ''0123456789''"
  unfolding digit_char_def by (rule nth_mem) simp

lemma digit_char_inj: "a < 10 \<Longrightarrow> b < 10 \<Longrightarrow> digit_char a = digit_char b \<Longrightarrow> a = b"
  unfolding digit_char_def
  by (subst (asm) nth_eq_iff_index_eq) simp_all

lemma digits_nonempty: "digits n \<noteq> []"
  by (subst digits.simps) simp

lemma digits_chars: "set (digits n) \<subseteq> set ''0123456789''"
proof (induction n rule: digits.induct)
  case (1 n)
  show ?case
  proof (cases "n < 10")
    case True
    then show ?thesis using digit_char_mem [of n] by (subst digits.simps) simp
  next
    case False
    then have "n mod 10 < 10" by simp
    from digit_char_mem [OF this] 1 [OF False] False
    show ?thesis by (subst digits.simps) simp
  qed
qed

lemma digits_inj: "digits a = digits b \<Longrightarrow> a = b"
proof (induction a arbitrary: b rule: digits.induct)
  case (1 a)
  have da: "digits a = (if a < 10 then [digit_char a] else digits (a div 10) @ [digit_char (a mod 10)])"
    by (subst digits.simps) simp
  have db: "digits b = (if b < 10 then [digit_char b] else digits (b div 10) @ [digit_char (b mod 10)])"
    by (subst digits.simps) simp
  show ?case
  proof (cases "a < 10")
    case a: True
    show ?thesis
    proof (cases "b < 10")
      case True
      with a 1 da db show ?thesis by (simp add: digit_char_inj)
    next
      case False
      with a "1.prems" da db digits_nonempty [of "b div 10"] show ?thesis by (cases "digits (b div 10)") auto
    qed
  next
    case a: False
    show ?thesis
    proof (cases "b < 10")
      case True
      with a "1.prems" da db digits_nonempty [of "a div 10"] show ?thesis by (cases "digits (a div 10)") auto
    next
      case False
      with a "1.prems" da db have e: "digits (a div 10) = digits (b div 10)"
        "digit_char (a mod 10) = digit_char (b mod 10)" by simp_all
      from "1.IH" [OF a e(1)] have "a div 10 = b div 10" .
      moreover have "a mod 10 = b mod 10" using e(2) by (intro digit_char_inj) simp_all
      ultimately show ?thesis by (metis div_mult_mod_eq)
    qed
  qed
qed

lemma show_int_chars: "set (show_int i) \<subseteq> insert CHR ''-'' (set ''0123456789'')"
proof -
  define D where "D = set ''0123456789''"
  have "set (digits (nat i)) \<subseteq> D" "set (digits (nat (- i))) \<subseteq> D"
    unfolding D_def by (rule digits_chars)+
  then have "set (show_int i) \<subseteq> insert CHR ''-'' D" by (auto simp: show_int_def)
  then show ?thesis by (simp only: D_def)
qed

lemma not_decimal_char:
  "CHR '':'' \<notin> insert CHR ''-'' (set ''0123456789'')"
  "CHR ''i'' \<notin> insert CHR ''-'' (set ''0123456789'')"
  "CHR ''-'' \<notin> set ''0123456789''"
  by simp_all

lemma show_int_inj: "show_int a = show_int b \<Longrightarrow> a = b"
proof -
  assume e: "show_int a = show_int b"
  have nominus: "CHR ''-'' \<notin> set (digits n)" for n
    using digits_chars [of n] not_decimal_char(3) by blast
  show ?thesis
  proof (cases "a < 0")
    case a: True
    show ?thesis
    proof (cases "b < 0")
      case True
      with a e have "digits (nat (- a)) = digits (nat (- b))" by (simp add: show_int_def)
      from digits_inj [OF this] a True show ?thesis by simp
    next
      case False
      with a e have "CHR ''-'' # digits (nat (- a)) = digits (nat b)" by (simp add: show_int_def)
      then have "CHR ''-'' \<in> set (digits (nat b))" by (metis list.set_intros(1))
      with nominus show ?thesis by blast
    qed
  next
    case a: False
    show ?thesis
    proof (cases "b < 0")
      case True
      with a e have "digits (nat a) = CHR ''-'' # digits (nat (- b))" by (simp add: show_int_def)
      then have "CHR ''-'' \<in> set (digits (nat a))" by (metis list.set_intros(1))
      with nominus show ?thesis by blast
    next
      case False
      with a e have "digits (nat a) = digits (nat b)" by (simp add: show_int_def)
      from digits_inj [OF this] a False show ?thesis by simp
    qed
  qed
qed

lemma show_int_nonempty: "show_int i \<noteq> []"
  by (simp add: show_int_def digits_nonempty)

lemma key_form: "RedisStorage_key s r = keyPrefix s @ show_int (Timestamp r) @ key_suffix r"
  by (simp add: RedisStorage_key_def key_suffix_def)

lemma takeWhile_decimal:
  "takeWhile (\<lambda>c. c \<noteq> CHR '':'') (show_int i @ key_suffix r) = show_int i"
proof -
  have a: "\<forall>c\<in>set (show_int i). c \<noteq> CHR '':''"
    using show_int_chars [of i] not_decimal_char(1) by blast
  have b: "takeWhile (\<lambda>c. c \<noteq> CHR '':'') (key_suffix r) = []" by (simp add: key_suffix_def)
  show ?thesis using a b by (simp add: takeWhile_append2)
qed

lemma RedisStorage_key_inj:
  assumes "RedisStorage_key s r1 = RedisStorage_key s r2"
  shows "Timestamp r1 = Timestamp r2"
proof -
  from assms have "show_int (Timestamp r1) @ key_suffix r1 = show_int (Timestamp r2) @ key_suffix r2"
    by (simp add: key_form)
  then have "takeWhile (\<lambda>c. c \<noteq> CHR '':'') (show_int (Timestamp r1) @ key_suffix r1)
           = takeWhile (\<lambda>c. c \<noteq> CHR '':'') (show_int (Timestamp r2) @ key_suffix r2)" by simp
  then have "show_int (Timestamp r1) = show_int (Timestamp r2)" by (simp only: takeWhile_decimal)
  then show ?thesis by (rule show_int_inj)
qed

lemma RedisStorage_key_not_index: "RedisStorage_key s r \<noteq> setKey s"
proof
  assume "RedisStorage_key s r = setKey s"
  then have e: "show_int (Timestamp r) @ key_suffix r = ''index''" by (simp add: key_form setKey_def)
  obtain c cs where c: "show_int (Timestamp r) = c # cs"
    using show_int_nonempty [of "Timestamp r"] by (cases "show_int (Timestamp r)") auto
  with e have "c = CHR ''i''" by simp
  moreover have "c \<in> set (show_int (Timestamp r))" using c by simp
  ultimately show False using show_int_chars [of "Timestamp r"] not_decimal_char(2) by blast
qed

section \<open>Redis backend: writing and querying\<close>

lemma zadd_new: "m \<notin> fst ` set z \<Longrightarrow> zadd z m sc = z @ [(m, sc)]"
  by (induction z) auto

lemma redis_holds_empty: "redis_holds s encode empty_redis []"
  by (simp add: redis_holds_def empty_redis_def)

lemma RedisStorage_Write_holds:
  assumes h: "redis_holds s encode redis rs"
    and fresh: "Timestamp r \<notin> Timestamp ` set rs"
    and enc: "encode r = Some d"
  shows "\<exists>redis'. RedisStorage_Write encode s redis False r = (None, redis')
           \<and> redis_holds s encode redis' (rs @ [r])"
proof -
  let ?k = "RedisStorage_key s r"
  have k1: "?k \<noteq> setKey s" by (rule RedisStorage_key_not_index)
  have k2: "RedisStorage_key s r' \<noteq> ?k" if "r' \<in> set rs" for r'
  proof
    assume "RedisStorage_key s r' = ?k"
    then have "Timestamp r' = Timestamp r" by (rule RedisStorage_key_inj)
    with that fresh show False by (metis imageI)
  qed
  have k3: "RedisStorage_key s r' \<noteq> setKey s" for r' by (rule RedisStorage_key_not_index)
  have up: "\<not> down redis" using h by (simp add: redis_holds_def)
  have old: "list_all (\<lambda>r'. kv redis (RedisStorage_key s r') = Some (Str (the (encode r')) (ttl s))) rs"
    using h by (simp add: redis_holds_def)
  show ?thesis
  proof (cases "rs = []")
    case True
    then have "kv redis (setKey s) = None" using h by (simp add: redis_holds_def)
    then show ?thesis
      using True up enc k1
      by (simp add: RedisStorage_Write_def Let_def redis_holds_def)
  next
    case False
    let ?z = "map (\<lambda>r. (RedisStorage_key s r, Timestamp r)) rs"
    have z: "kv redis (setKey s) = Some (ZSet ?z)" using h False by (simp add: redis_holds_def)
    have "?k \<notin> fst ` set ?z" using k2 by force
    from zadd_new [OF this] have za: "zadd ?z ?k (Timestamp r) = ?z @ [(?k, Timestamp r)]" .
    have keep: "list_all (\<lambda>r'. ((kv redis)(?k \<mapsto> Str d (ttl s), setKey s \<mapsto> ZSet (?z @ [(?k, Timestamp r)])))
                     (RedisStorage_key s r') = Some (Str (the (encode r')) (ttl s))) rs"
      using old k2 k3 by (simp add: list_all_iff)
    show ?thesis
      using False up enc k1 z za keep
      by (simp add: RedisStorage_Write_def Let_def redis_holds_def)
  qed
qed

lemma RedisStorage_Write_all_holds:
  "redis_holds s encode redis rs0 \<Longrightarrow> distinct (map Timestamp (rs0 @ rs)) \<Longrightarrow>
   \<forall>r\<in>set rs. encode r \<noteq> None \<Longrightarrow>
   \<exists>redis'. RedisStorage_Write_all encode s redis rs = (replicate (length rs) None, redis')
      \<and> redis_holds s encode redis' (rs0 @ rs)"
proof (induction rs arbitrary: redis rs0)
  case Nil
  then show ?case by simp
next
  case (Cons r rs)
  from Cons.prems(3) obtain d where d: "encode r = Some d" by auto
  have fresh: "Timestamp r \<notin> Timestamp ` set rs0" using Cons.prems(2) by auto
  from RedisStorage_Write_holds [OF Cons.prems(1) fresh d] obtain redis1 where
    w: "RedisStorage_Write encode s redis False r = (None, redis1)"
    and h1: "redis_holds s encode redis1 (rs0 @ [r])" by blast
  have "distinct (map Timestamp ((rs0 @ [r]) @ rs))" using Cons.prems(2) by simp
  from Cons.IH [OF h1 this] Cons.prems(3) obtain redis2 where
    "RedisStorage_Write_all encode s redis1 rs = (replicate (length rs) None, redis2)"
    "redis_holds s encode redis2 ((rs0 @ [r]) @ rs)" by auto
  with w show ?case by simp
qed

lemma insort_key_map:
  "insort_key f (g x) (map g xs) = map g (insort_key (\<lambda>x. f (g x)) x xs)"
  by (induction xs) simp_all

lemma sort_key_map: "sort_key f (map g xs) = map g (sort_key (\<lambda>x. f (g x)) xs)"
  by (induction xs) (simp_all add: insort_key_map)

lemma wrap64_small: "- (2 ^ 63) \<le> x \<Longrightarrow> x < 2 ^ 63 \<Longrightarrow> wrap64 x = x"
  by (simp add: wrap64_def)

lemma redis_get_loop_found:
  "list_all (\<lambda>r. (\<exists>t. kv redis (RedisStorage_key s r) = Some (Str (the (encode r)) t))
               \<and> decode (the (encode r)) = Some r \<and> matchesFilter r f) rs \<Longrightarrow>
   redis_get_loop decode sk f (map (RedisStorage_key s) rs) redis acc = (acc @ rs, redis)"
  by (induction rs arbitrary: acc) auto

lemma matchesFilter_no_predicates:
  "matchesFilter r (Normalize (WithLimit k DefaultQueryFilter))"
  by (simp add: matchesFilter_def Normalize_other_fields WithLimit_def DefaultQueryFilter_def)

lemma sorted_desc_sort_key:
  "sorted_wrt (\<lambda>a b. Timestamp b \<le> Timestamp a) (sort_key (\<lambda>r. - Timestamp r) xs)"
  using sorted_sort_key [of "\<lambda>r. - Timestamp r" xs] by (simp add: sorted_map)

lemma RedisStorage_Query_holds:
  assumes h: "redis_holds s encode redis rs" and n: "int (length rs) \<le> k" "k \<le> 1000"
    and dec: "\<forall>r\<in>set rs. decode (the (encode r)) = Some r"
  shows "RedisStorage_Query decode s redis False (Some (WithLimit k DefaultQueryFilter))
           = (Inr (sort_key (\<lambda>r. - Timestamp r) rs), redis)"
proof (cases "rs = []")
  case True
  with h show ?thesis
    by (simp add: RedisStorage_Query_def Let_def redis_holds_def zrevrangebyscore_def)
next
  case False
  let ?f = "Normalize (WithLimit k DefaultQueryFilter)"
  let ?rs' = "sort_key (\<lambda>r. - Timestamp r) rs"
  let ?z = "map (\<lambda>r. (RedisStorage_key s r, Timestamp r)) rs"
  have len: "1 \<le> length rs" using False by (cases rs) auto
  have f: "Limit ?f = k" "Offset ?f = 0" "StartTime ?f = 0" "EndTime ?f = 0"
    using len n
    by (simp_all add: Normalize_Limit Normalize_Offset Normalize_other_fields WithLimit_def DefaultQueryFilter_def)
  have up: "\<not> down redis" and z: "kv redis (setKey s) = Some (ZSet ?z)"
    using h False by (simp_all add: redis_holds_def)
  have cnt: "wrap64 (k + 0 + 100) = k + 100"
    using n wrap64_small [of "k + 0 + 100"] by simp
  have keys: "zrevrangebyscore ?z None None (k + 100) = map (RedisStorage_key s) ?rs'"
    using n len by (simp add: zrevrangebyscore_def Let_def in_range_def sort_key_map comp_def)
  have all: "list_all (\<lambda>r. (\<exists>t. kv redis (RedisStorage_key s r) = Some (Str (the (encode r)) t))
               \<and> decode (the (encode r)) = Some r \<and> matchesFilter r ?f) ?rs'"
    using h dec matchesFilter_no_predicates by (auto simp: redis_holds_def list_all_iff)
  have loop: "redis_get_loop decode (setKey s) ?f (map (RedisStorage_key s) ?rs') redis [] = (?rs', redis)"
    using redis_get_loop_found [OF all, of "setKey s" "[]"] by simp
  have again: "sort_key (\<lambda>r. - Timestamp r) ?rs' = ?rs'"
    by (rule sort_key_id_if_sorted) (rule sorted_sort_key)
  have fits: "length rs \<le> nat k" "length ?rs' \<le> nat k" using n by simp_all
  show ?thesis
    using f up z cnt keys loop again False len n fits
    by (simp add: RedisStorage_Query_def Let_def)
qed

lemma RedisStorage_Query_sorted:
  "fst (RedisStorage_Query decode s redis ctxDone flt) = Inr res \<Longrightarrow>
   sorted_wrt (\<lambda>a b. Timestamp b \<le> Timestamp a) res"
  by (auto simp: RedisStorage_Query_def Let_def sorted_desc_sort_key
      split: if_splits option.splits redis_value.splits prod.splits)

section \<open>Redis backend: two records of one second without identifiers\<close>

lemma no_id_key:
  "EventID r = [] \<Longrightarrow> ChallengeID r = [] \<Longrightarrow> UserID r = [] \<Longrightarrow>
   RedisStorage_key s r = keyPrefix s @ show_int (Timestamp r)"
  by (simp add: RedisStorage_key_def)

text \<open>
  C3, on the code. Two records that have no event id, challenge id or user id and carry
  the same timestamp get the same key. Written one after the other to an empty server,
  the second replaces the first under that key and the index keeps one member for it:
  a query returns the second record only.
\<close>

theorem RedisStorage_same_second_no_id_overwrites:
  assumes r1: "EventID r1 = []" "ChallengeID r1 = []" "UserID r1 = []"
    and r2: "EventID r2 = []" "ChallengeID r2 = []" "UserID r2 = []"
    and ts: "Timestamp r1 = Timestamp r2"
    and enc: "encode r1 = Some d1" "encode r2 = Some d2"
    and dec: "decode d2 = Some r2"
  shows "RedisStorage_key s r1 = RedisStorage_key s r2
     \<and> (\<exists>redis'. RedisStorage_Write_all encode s empty_redis [r1, r2] = ([None, None], redis')
            \<and> RedisStorage_Query decode s redis' False (Some (WithLimit 10 DefaultQueryFilter))
                = (Inr [r2], redis'))"
proof -
  let ?k = "RedisStorage_key s r2"
  have same: "RedisStorage_key s r1 = ?k" using r1 r2 ts by (simp add: no_id_key)
  have k: "?k \<noteq> setKey s" by (rule RedisStorage_key_not_index)
  define redis' where "redis' = \<lparr>kv = [?k \<mapsto> Str d2 (ttl s), setKey s \<mapsto> ZSet [(?k, Timestamp r2)]], down = False\<rparr>"
  have w: "RedisStorage_Write_all encode s empty_redis [r1, r2] = ([None, None], redis')"
    using same k enc ts
    by (simp add: RedisStorage_Write_def Let_def empty_redis_def redis'_def fun_upd_twist)
  have h: "redis_holds s encode redis' [r2]"
    using k enc by (simp add: redis_holds_def redis'_def)
  have q: "RedisStorage_Query decode s redis' False (Some (WithLimit 10 DefaultQueryFilter))
          = (Inr (sort_key (\<lambda>r. - Timestamp r) [r2]), redis')"
    by (rule RedisStorage_Query_holds [OF h]) (simp_all add: enc dec)
  from same w q show ?thesis by simp
qed

text \<open>
  The two records of \<open>TestRedisStorage_Write_SameSecondNoID\<close>, with a codec that keeps
  the event type: the query with limit 10 returns one record, not two.
\<close>

theorem RedisStorage_same_second_no_id_overwrites_witness:
  "RedisStorage_key NewRedisStorage (NewRecord 1700000000 ''login_success'' ''success'')
     = RedisStorage_key NewRedisStorage (NewRecord 1700000000 ''login_failed'' ''failure'')
   \<and> (\<exists>redis'. RedisStorage_Write_all (\<lambda>r. Some (EventType r)) NewRedisStorage empty_redis
              [NewRecord 1700000000 ''login_success'' ''success'',
               NewRecord 1700000000 ''login_failed'' ''failure''] = ([None, None], redis')
          \<and> RedisStorage_Query (\<lambda>d. Some (NewRecord 1700000000 d (if d = ''login_failed'' then ''failure'' else ''success'')))
                NewRedisStorage redis' False (Some (WithLimit 10 DefaultQueryFilter))
              = (Inr [NewRecord 1700000000 ''login_failed'' ''failure''], redis'))"
  by (rule RedisStorage_same_second_no_id_overwrites) (simp_all add: NewRecord_def)

section \<open>The order of query results\<close>

lemma fs_lookup_file_path: "fs_lookup fs p = Some (File m c) \<Longrightarrow> p \<noteq> [] \<and> fs p = Some (File m c)"
  by (auto simp: fs_lookup_def split: if_splits)

lemma FileStorage_Write_all_content:
  assumes "fs_lookup fs (file_fd s) = Some (File m c)" and "\<not> fileClosed s"
    and "\<forall>r\<in>set rs. encode r \<noteq> None"
  shows "FileStorage_Write_all encode s fs rs =
     (replicate (length rs) None,
      fs(file_fd s \<mapsto> File m (c @ concat (map (\<lambda>r. the (encode r) @ [newline]) rs))))"
  using assms
proof (induction rs arbitrary: fs c)
  case Nil
  from fs_lookup_file_path [OF Nil(1)] have "fs (file_fd s) = Some (File m c)" by simp
  then have "fs(file_fd s \<mapsto> File m c) = fs" by (rule fun_upd_idem)
  then show ?case by simp
next
  case (Cons r rs)
  from Cons.prems(3) obtain d where d: "encode r = Some d" by auto
  from fs_lookup_file_path [OF Cons.prems(1)] have p: "file_fd s \<noteq> []" by simp
  let ?fs1 = "fs(file_fd s \<mapsto> File m (c @ d @ [newline]))"
  have w: "FileStorage_Write encode s fs False r = (None, ?fs1)"
    using Cons.prems(1,2) d by (simp add: FileStorage_Write_def)
  have l1: "fs_lookup ?fs1 (file_fd s) = Some (File m (c @ d @ [newline]))"
    using p by (simp add: fs_lookup_def)
  have rest: "\<forall>r\<in>set rs. encode r \<noteq> None" using Cons.prems(3) by simp
  note ih = Cons.IH [OF l1 Cons.prems(2) rest]
  have u: "?fs1(file_fd s \<mapsto> File m ((c @ d @ [newline]) @ concat (map (\<lambda>r. the (encode r) @ [newline]) rs)))
      = fs(file_fd s \<mapsto> File m (c @ concat (map (\<lambda>r. the (encode r) @ [newline]) (r # rs))))"
    using d by simp
  have "FileStorage_Write_all encode s fs (r # rs)
      = (case FileStorage_Write_all encode s ?fs1 rs of (es, fs2) \<Rightarrow> (None # es, fs2))"
    by (simp only: FileStorage_Write_all.simps w prod.case)
  also have "\<dots> = (None # replicate (length rs) None,
      ?fs1(file_fd s \<mapsto> File m ((c @ d @ [newline]) @ concat (map (\<lambda>r. the (encode r) @ [newline]) rs))))"
    by (simp only: ih prod.case)
  also have "\<dots> = (replicate (length (r # rs)) None,
      fs(file_fd s \<mapsto> File m (c @ concat (map (\<lambda>r. the (encode r) @ [newline]) (r # rs)))))"
    by (simp only: u length_Cons replicate_Suc)
  finally show ?case .
qed

lemma line_record_codec_ok:
  "codec_ok maxSize encode decode r \<Longrightarrow> line_record maxSize decode (the (encode r)) = Some r"
  by (auto simp: codec_ok_def line_record_def dropCR_def split: option.splits)

lemma map_filter_line_record:
  "\<forall>r\<in>set rs. codec_ok maxSize encode decode r \<Longrightarrow>
   List.map_filter (line_record maxSize decode) (map (\<lambda>r. the (encode r)) rs) = rs"
  by (induction rs) (simp_all add: List.map_filter_simps line_record_codec_ok)

lemma split_lines_encoded:
  assumes "\<forall>r\<in>set rs. codec_ok maxSize encode decode r"
  shows "split_lines (concat (map (\<lambda>r. the (encode r) @ [newline]) rs)) [] = map (\<lambda>r. the (encode r)) rs"
proof -
  have "\<forall>l\<in>set (map (\<lambda>r. the (encode r)) rs). newline \<notin> set l"
    using assms by (auto simp: codec_ok_def split: option.splits)
  from split_lines_concat [OF this] show ?thesis by (simp add: comp_def)
qed

lemma FileStorage_roundtrip:
  assumes f: "fs_lookup fs (filePath s) = Some (File m [])" "file_fd s = filePath s" "\<not> fileClosed s"
    and n: "length rs \<le> 1000"
    and ok: "\<forall>r\<in>set rs. codec_ok maxSize encode decode r"
  shows "\<exists>fs'. FileStorage_Write_all encode s fs rs = (replicate (length rs) None, fs')
           \<and> FileStorage_Query maxSize decode s fs' False (Some (WithLimit (int (length rs)) DefaultQueryFilter))
               = Inr (rev rs)"
proof -
  let ?c = "concat (map (\<lambda>r. the (encode r) @ [newline]) rs)"
  let ?fs' = "fs(filePath s \<mapsto> File m ?c)"
  let ?flt = "Some (WithLimit (int (length rs)) DefaultQueryFilter)"
  have enc: "\<forall>r\<in>set rs. encode r \<noteq> None" using ok by (auto simp: codec_ok_def split: option.splits)
  have w: "FileStorage_Write_all encode s fs rs = (replicate (length rs) None, ?fs')"
    using FileStorage_Write_all_content [of fs s m "[]" rs encode] f enc by simp
  from fs_lookup_file_path [OF f(1)] have p: "filePath s \<noteq> []" by simp
  have st: "stat ?fs' (filePath s) = Some (File m ?c)"
    using p by (simp add: stat_def fs_lookup_def eval_nat_numeral)
  have lines: "split_lines ?c [] = map (\<lambda>r. the (encode r)) rs" by (rule split_lines_encoded [OF ok])
  have short: "\<not> (\<exists>l\<in>set (split_lines ?c []). max 64 maxSize \<le> length l)"
    unfolding lines using ok by (auto simp: codec_ok_def split: option.splits)
  have lim: "length rs \<le> nat (Limit (effective_filter ?flt))" "Offset (effective_filter ?flt) = 0"
    using n by (simp_all add: effective_filter_def Normalize_Limit Normalize_Offset WithLimit_def DefaultQueryFilter_def)
  have m: "matchesFilter r (effective_filter ?flt)" for r
    by (simp add: effective_filter_def matchesFilter_no_predicates)
  have "FileStorage_Query maxSize decode s ?fs' False ?flt = Inr (rev rs)"
    using FileStorage_Query_eq [OF st, of False maxSize decode ?flt] short lim m
    by (simp add: lines map_filter_line_record [OF ok])
  with w show ?thesis by blast
qed

lemma strictly_descending_sort_key:
  assumes "distinct (map Timestamp rs)"
  shows "sorted_wrt (\<lambda>a b. Timestamp b < Timestamp a) (sort_key (\<lambda>r. - Timestamp r) rs)"
proof -
  let ?g = "\<lambda>r. - Timestamp r"
  let ?res = "sort_key ?g rs"
  from assms have d: "distinct rs" and i: "inj_on Timestamp (set rs)" by (simp_all add: distinct_map)
  have "inj_on ?g (set ?res)" using i by (auto simp: inj_on_def)
  moreover have "distinct ?res" using d by simp
  ultimately have "distinct (map ?g ?res)" by (simp add: distinct_map)
  moreover have "sorted (map ?g ?res)" by (rule sorted_sort_key)
  ultimately have "sorted_wrt (<) (map ?g ?res)" by (simp add: strict_sorted_iff)
  then show ?thesis by (simp add: sorted_wrt_map)
qed

lemma RedisStorage_roundtrip:
  assumes n: "length rs \<le> 1000" and d: "distinct (map Timestamp rs)"
    and ok: "\<forall>r\<in>set rs. codec_ok maxSize encode decode r"
  shows "\<exists>redis' res.
           RedisStorage_Write_all encode s empty_redis rs = (replicate (length rs) None, redis')
           \<and> fst (RedisStorage_Query decode s redis' False
                     (Some (WithLimit (int (length rs)) DefaultQueryFilter))) = Inr res
           \<and> length res = length rs \<and> set res = set rs
           \<and> sorted_wrt (\<lambda>a b. Timestamp b < Timestamp a) res"
proof -
  have enc: "\<forall>r\<in>set rs. encode r \<noteq> None" using ok by (auto simp: codec_ok_def split: option.splits)
  have dec: "\<forall>r\<in>set rs. decode (the (encode r)) = Some r"
    using ok by (auto simp: codec_ok_def split: option.splits)
  from RedisStorage_Write_all_holds [OF redis_holds_empty, of rs encode s] d enc
  obtain redis' where w: "RedisStorage_Write_all encode s empty_redis rs = (replicate (length rs) None, redis')"
    and h: "redis_holds s encode redis' rs" by auto
  have q: "RedisStorage_Query decode s redis' False (Some (WithLimit (int (length rs)) DefaultQueryFilter))
           = (Inr (sort_key (\<lambda>r. - Timestamp r) rs), redis')"
    using RedisStorage_Query_holds [OF h _ _ dec, of "int (length rs)"] n by simp
  show ?thesis
    using w q strictly_descending_sort_key [OF d] by simp
qed

lemma demo_codec_ok:
  "codec_ok 1048576 demo_encode demo_decode (NewRecord 1 [] [])"
  "codec_ok 1048576 demo_encode demo_decode (NewRecord 2 [] [])"
  "codec_ok 1048576 demo_encode demo_decode (NewRecord 3 [] [])"
  by (simp_all add: codec_ok_def demo_encode_def demo_decode_def NewRecord_def)

lemma file_with_empty:
  "fs_lookup (snd (file_with [])) (filePath (fst (file_with []))) = Some (File 420 [])"
  "file_fd (fst (file_with [])) = filePath (fst (file_with []))"
  "\<not> fileClosed (fst (file_with []))"
  by (simp_all add: file_with_def fs_lookup_def)

text \<open>
  What a round trip returns on the two backends. The Redis backend returns the matching
  records ordered by timestamp descending, whatever the store holds and whatever the
  filter; after writing \<open>N\<close> records (\<open>N\<close> at most 1000, the cap of \<open>limit\<close>) with pairwise
  distinct timestamps to an empty store, in any order, the query with \<open>limit = N\<close>
  returns exactly those \<open>N\<close> records in strictly descending timestamp order. The file
  backend, after the same writes to an empty file, returns the \<open>N\<close> records last written
  first, which is strictly descending by timestamp exactly when they were written in
  strictly ascending timestamp order. The records are such that the codec can store
  them in a line (\<open>codec_ok\<close>).
\<close>

theorem Query_order_redis_sorted_file_reverse_write_order:
  assumes n: "length rs \<le> 1000" and d: "distinct (map Timestamp rs)"
    and ok: "\<forall>r\<in>set rs. codec_ok maxSize encode decode r"
    and f: "fs_lookup fs (filePath fstore) = Some (File m [])" "file_fd fstore = filePath fstore"
           "\<not> fileClosed fstore"
  shows "(\<exists>redis' res.
            RedisStorage_Write_all encode rstore empty_redis rs = (replicate (length rs) None, redis')
            \<and> fst (RedisStorage_Query decode rstore redis' False
                      (Some (WithLimit (int (length rs)) DefaultQueryFilter))) = Inr res
            \<and> length res = length rs \<and> set res = set rs
            \<and> sorted_wrt (\<lambda>a b. Timestamp b < Timestamp a) res)
       \<and> (\<forall>redis ctxDone flt res.
            fst (RedisStorage_Query decode rstore redis ctxDone flt) = Inr res
            \<longrightarrow> sorted_wrt (\<lambda>a b. Timestamp b \<le> Timestamp a) res)
       \<and> (\<exists>fs'. FileStorage_Write_all encode fstore fs rs = (replicate (length rs) None, fs')
            \<and> FileStorage_Query maxSize decode fstore fs' False
                 (Some (WithLimit (int (length rs)) DefaultQueryFilter)) = Inr (rev rs))
       \<and> (sorted_wrt (\<lambda>a b. Timestamp b < Timestamp a) (rev rs)
            = sorted_wrt (\<lambda>a b. Timestamp a < Timestamp b) rs)"
proof -
  note a = RedisStorage_roundtrip [OF n d ok, of rstore]
  have b: "\<forall>redis ctxDone flt res.
            fst (RedisStorage_Query decode rstore redis ctxDone flt) = Inr res
            \<longrightarrow> sorted_wrt (\<lambda>a b. Timestamp b \<le> Timestamp a) res"
    using RedisStorage_Query_sorted by blast
  note c = FileStorage_roundtrip [OF f n ok]
  have e: "sorted_wrt (\<lambda>a b. Timestamp b < Timestamp a) (rev rs)
            = sorted_wrt (\<lambda>a b. Timestamp a < Timestamp b) rs"
    by (simp add: sorted_wrt_rev)
  from a b c e show ?thesis by blast
qed

text \<open>
  Three records written with the timestamps 2, 3, 1: Redis returns them sorted, the file
  returns them as 1, 3, 2.
\<close>

theorem Query_order_redis_sorted_file_reverse_write_order_witness:
  "(\<exists>redis' res.
      RedisStorage_Write_all demo_encode NewRedisStorage empty_redis
        [NewRecord 2 [] [], NewRecord 3 [] [], NewRecord 1 [] []] = ([None, None, None], redis')
      \<and> fst (RedisStorage_Query demo_decode NewRedisStorage redis' False
                (Some (WithLimit 3 DefaultQueryFilter))) = Inr res
      \<and> length res = 3
      \<and> set res = {NewRecord 2 [] [], NewRecord 3 [] [], NewRecord 1 [] []}
      \<and> sorted_wrt (\<lambda>a b. Timestamp b < Timestamp a) res)
   \<and> (\<exists>fs'. FileStorage_Write_all demo_encode (fst (file_with [])) (snd (file_with []))
               [NewRecord 2 [] [], NewRecord 3 [] [], NewRecord 1 [] []] = ([None, None, None], fs')
         \<and> FileStorage_Query 1048576 demo_decode (fst (file_with [])) fs' False
              (Some (WithLimit 3 DefaultQueryFilter))
            = Inr [NewRecord 1 [] [], NewRecord 3 [] [], NewRecord 2 [] []])"
proof -
  let ?rs = "[NewRecord 2 [] [], NewRecord 3 [] [], NewRecord 1 [] []]"
  have n: "length ?rs \<le> 1000" by simp
  have d: "distinct (map Timestamp ?rs)" by (simp add: NewRecord_def)
  have ok: "\<forall>r\<in>set ?rs. codec_ok 1048576 demo_encode demo_decode r"
    by (simp add: demo_codec_ok)
  have shape: "length ?rs = 3" "replicate 3 (None :: error option) = [None, None, None]"
    "int 3 = 3" "set ?rs = {NewRecord 2 [] [], NewRecord 3 [] [], NewRecord 1 [] []}"
    "rev ?rs = [NewRecord 1 [] [], NewRecord 3 [] [], NewRecord 2 [] []]"
    by (simp_all add: eval_nat_numeral)
  note t = Query_order_redis_sorted_file_reverse_write_order
    [OF n d ok file_with_empty, of NewRedisStorage, unfolded shape]
  from t show ?thesis by blast
qed

text \<open>
  C6, on the code. \<open>FileStorage.Query\<close> never sorts: it walks the records from the last
  line of the file to the first. Two records written with the distinct timestamps 2 and
  then 1 come back, with \<open>limit = 2\<close>, with the timestamps 1, 2: oldest first, where the
  contract of \<open>Storage.Query\<close> is newest first. The Redis backend, given the same two
  writes in the same order, returns 2, 1.
\<close>

theorem FileStorage_Query_follows_write_order:
  "map_sum id (map Timestamp)
     (FileStorage_Query 1048576 demo_decode (fst (file_with []))
        (snd (FileStorage_Write_all demo_encode (fst (file_with [])) (snd (file_with []))
                [NewRecord 2 [] [], NewRecord 1 [] []]))
        False (Some (WithLimit 2 DefaultQueryFilter)))
   = Inr [1, 2]
   \<and> map_sum id (map Timestamp)
       (fst (RedisStorage_Query demo_decode NewRedisStorage
          (snd (RedisStorage_Write_all demo_encode NewRedisStorage empty_redis
                  [NewRecord 2 [] [], NewRecord 1 [] []]))
          False (Some (WithLimit 2 DefaultQueryFilter))))
   = Inr [2, 1]"
proof -
  let ?rs = "[NewRecord 2 [] [], NewRecord 1 [] []]"
  have n: "length ?rs \<le> 1000" by simp
  have ok: "\<forall>r\<in>set ?rs. codec_ok 1048576 demo_encode demo_decode r"
    by (simp add: demo_codec_ok)
  have shape: "length ?rs = 2" "int 2 = 2" "rev ?rs = [NewRecord 1 [] [], NewRecord 2 [] []]"
    by simp_all
  from FileStorage_roundtrip [OF file_with_empty n ok, unfolded shape]
  obtain fs' where w: "FileStorage_Write_all demo_encode (fst (file_with [])) (snd (file_with [])) ?rs
        = (replicate 2 None, fs')"
    and q: "FileStorage_Query 1048576 demo_decode (fst (file_with [])) fs' False
        (Some (WithLimit 2 DefaultQueryFilter)) = Inr [NewRecord 1 [] [], NewRecord 2 [] []]"
    by blast
  have "snd (FileStorage_Write_all demo_encode (fst (file_with [])) (snd (file_with [])) ?rs) = fs'"
    by (simp only: w snd_conv)
  then have file_part: "map_sum id (map Timestamp)
     (FileStorage_Query 1048576 demo_decode (fst (file_with []))
        (snd (FileStorage_Write_all demo_encode (fst (file_with [])) (snd (file_with [])) ?rs))
        False (Some (WithLimit 2 DefaultQueryFilter))) = Inr [1, 2]"
    by (simp only: q) (simp add: NewRecord_def)
  have d: "distinct (map Timestamp ([] @ ?rs))" by (simp add: NewRecord_def)
  have enc: "\<forall>r\<in>set ?rs. demo_encode r \<noteq> None"
    by (simp add: demo_encode_def NewRecord_def)
  have dec: "\<forall>r\<in>set ?rs. demo_decode (the (demo_encode r)) = Some r"
    by (simp add: demo_encode_def demo_decode_def NewRecord_def)
  from RedisStorage_Write_all_holds [OF redis_holds_empty d enc, of NewRedisStorage]
  obtain redis' where
    rw: "RedisStorage_Write_all demo_encode NewRedisStorage empty_redis ?rs
           = (replicate (length ?rs) None, redis')"
    and h: "redis_holds NewRedisStorage demo_encode redis' ([] @ ?rs)" by blast
  have h': "redis_holds NewRedisStorage demo_encode redis' ?rs" using h by simp
  have sorted_rs: "sort_key (\<lambda>r. - Timestamp r) ?rs = ?rs" by (simp add: NewRecord_def)
  have rq: "RedisStorage_Query demo_decode NewRedisStorage redis' False
              (Some (WithLimit 2 DefaultQueryFilter)) = (Inr ?rs, redis')"
    using RedisStorage_Query_holds [OF h' _ _ dec, of 2] by (simp only: sorted_rs) simp
  have "snd (RedisStorage_Write_all demo_encode NewRedisStorage empty_redis ?rs) = redis'"
    by (simp only: rw snd_conv)
  then have redis_part: "map_sum id (map Timestamp)
       (fst (RedisStorage_Query demo_decode NewRedisStorage
          (snd (RedisStorage_Write_all demo_encode NewRedisStorage empty_redis ?rs))
          False (Some (WithLimit 2 DefaultQueryFilter)))) = Inr [2, 1]"
    by (simp only: rq fst_conv) (simp add: NewRecord_def)
  from file_part redis_part show ?thesis by (rule conjI)
qed

section \<open>File backend: construction\<close>

text \<open>
  C4, on the code. \<open>NewFileStorage\<close> has no check for a symbolic link and asks for the
  modes \<open>0755\<close> and \<open>0644\<close>. In the scenario of \<open>TestNewFileStorage_RefusesSymlink\<close>
  (\<open>audit.log\<close> is a link to the existing file \<open>target.log\<close>) it returns a storage, opened
  on the target, instead of an error. Under the usual umask \<open>022\<close> (18) a missing
  directory is created with mode \<open>0755\<close> (493) and the file with mode \<open>0644\<close> (420),
  both with bits set for group and others (mask \<open>077\<close>, 63).
\<close>

theorem NewFileStorage_follows_symlink_and_leaves_group_other_bits:
  "map_sum id fst
     (NewFileStorage 18
        [[''tmp''] \<mapsto> Dir 448,
         [''tmp'', ''target.log''] \<mapsto> File 384 ''data'',
         [''tmp'', ''audit.log''] \<mapsto> Symlink [''tmp'', ''target.log'']]
        [''tmp'', ''audit.log''])
     = Inr \<lparr>filePath = [''tmp'', ''audit.log''], file_fd = [''tmp'', ''target.log''], fileClosed = False\<rparr>
   \<and> map_sum id (\<lambda>(s, fs). (fs [''tmp'', ''logs''], fs [''tmp'', ''logs'', ''audit.log'']))
       (NewFileStorage 18 [[''tmp''] \<mapsto> Dir 448] [''tmp'', ''logs'', ''audit.log''])
     = Inr (Some (Dir 493), Some (File 420 []))
   \<and> (493 :: 32 word) AND 63 \<noteq> 0 \<and> (420 :: 32 word) AND 63 \<noteq> 0"
proof -
  have bits: "(493 :: 32 word) AND 63 \<noteq> 0" "(420 :: 32 word) AND 63 \<noteq> 0" by simp_all
  have link: "map_sum id fst
     (NewFileStorage 18
        [[''tmp''] \<mapsto> Dir 448,
         [''tmp'', ''target.log''] \<mapsto> File 384 ''data'',
         [''tmp'', ''audit.log''] \<mapsto> Symlink [''tmp'', ''target.log'']]
        [''tmp'', ''audit.log''])
     = Inr \<lparr>filePath = [''tmp'', ''audit.log''], file_fd = [''tmp'', ''target.log''], fileClosed = False\<rparr>"
    by (simp add: NewFileStorage_def MkdirAll_def OpenFile_def stat_def fs_lookup_def
        eval_nat_numeral)
  have modes: "map_sum id (\<lambda>(s, fs). (fs [''tmp'', ''logs''], fs [''tmp'', ''logs'', ''audit.log'']))
       (NewFileStorage 18 [[''tmp''] \<mapsto> Dir 448] [''tmp'', ''logs'', ''audit.log''])
     = Inr (Some (Dir 493), Some (File 420 []))"
    by (simp add: NewFileStorage_def MkdirAll_def OpenFile_def stat_def fs_lookup_def
        eval_nat_numeral)
  from link modes bits show ?thesis by blast
qed

end
